theory Spec2Isabelle
  imports Complex_Main "HOL-Library.Sublist" "HOL-Library.Monad_Syntax"
begin

section \<open>The measurement record and the metric extractor\<close>

text \<open>
  The parsed JSON record of \<^verbatim>\<open>plotter-ascii.py\<close>, restricted to the keys the
  extractor reads. A key that may be absent is an option: \<open>None\<close> is what
  \<^verbatim>\<open>dict.get\<close> returns for it and where \<^verbatim>\<open>stream["end"]\<close> raises
  \<^verbatim>\<open>KeyError\<close>. The direction flag is the tri-state of the data model
  (true, false, absent). A JSON number is a Python int or a Python float; no arithmetic
  is done on either, so a float is carried by the real number it denotes.
\<close>

datatype py_error = KeyError | IndexError

datatype pynum = PyInt int | PyFloat real

record stream =
  sender :: "bool option"
  end_time :: "pynum option"
  bytes :: "pynum option"
  lost_percent :: "pynum option"
  jitter_ms :: "pynum option"

record interval =
  streams :: "stream list option"

record measurement =
  intervals :: "interval list option"

text \<open>The six lists \<^verbatim>\<open>extract_performance_metrics\<close> builds and returns.\<close>

record series =
  sender_times :: "pynum list"
  sender_bytes :: "pynum list"
  receiver_times :: "pynum list"
  receiver_bytes :: "pynum list"
  packet_loss :: "pynum list"
  jitter :: "pynum list"

definition empty_series :: series where
  "empty_series = \<lparr>sender_times = [], sender_bytes = [], receiver_times = [],
     receiver_bytes = [], packet_loss = [], jitter = []\<rparr>"

text \<open>\<^verbatim>\<open>d[key]\<close> on a key that may be missing.\<close>

definition subscript :: "'a option \<Rightarrow> py_error + 'a" where
  "subscript v = (case v of None \<Rightarrow> Inl KeyError | Some x \<Rightarrow> Inr x)"

text \<open>\<^verbatim>\<open>d.get(key, default)\<close>.\<close>

definition get_default :: "'a option \<Rightarrow> 'a \<Rightarrow> 'a" where
  "get_default v d = (case v of None \<Rightarrow> d | Some x \<Rightarrow> x)"

text \<open>
  The body of the inner loop, lines 182 to 189: \<^verbatim>\<open>if stream.get("sender")\<close> is the
  branch of a true flag, \<^verbatim>\<open>elif stream.get("sender") is False\<close> the branch of a false
  one, and an absent flag takes neither.
\<close>

definition stream_step :: "series \<Rightarrow> stream \<Rightarrow> py_error + series" where
  "stream_step acc s =
     (if sender s = Some True then
        (case subscript (end_time s) of
           Inl e \<Rightarrow> Inl e
         | Inr t \<Rightarrow>
             (case subscript (bytes s) of
                Inl e \<Rightarrow> Inl e
              | Inr b \<Rightarrow> Inr (acc\<lparr>sender_times := sender_times acc @ [t],
                                   sender_bytes := sender_bytes acc @ [b]\<rparr>)))
      else if sender s = Some False then
        (case subscript (end_time s) of
           Inl e \<Rightarrow> Inl e
         | Inr t \<Rightarrow>
             (case subscript (bytes s) of
                Inl e \<Rightarrow> Inl e
              | Inr b \<Rightarrow>
                  Inr (acc\<lparr>receiver_times := receiver_times acc @ [t],
                           receiver_bytes := receiver_bytes acc @ [b],
                           packet_loss := packet_loss acc @ [get_default (lost_percent s) (PyInt 0)],
                           jitter := jitter acc @ [get_default (jitter_ms s) (PyInt 0)]\<rparr>)))
      else Inr acc)"

fun streams_loop :: "series \<Rightarrow> stream list \<Rightarrow> py_error + series" where
  "streams_loop acc [] = Inr acc"
| "streams_loop acc (s # ss) =
     (case stream_step acc s of Inl e \<Rightarrow> Inl e | Inr acc' \<Rightarrow> streams_loop acc' ss)"

fun intervals_loop :: "series \<Rightarrow> interval list \<Rightarrow> py_error + series" where
  "intervals_loop acc [] = Inr acc"
| "intervals_loop acc (iv # ivs) =
     (case streams_loop acc (get_default (streams iv) []) of
        Inl e \<Rightarrow> Inl e
      | Inr acc' \<Rightarrow> intervals_loop acc' ivs)"

definition extract_performance_metrics :: "measurement \<Rightarrow> py_error + series" where
  "extract_performance_metrics d = intervals_loop empty_series (get_default (intervals d) [])"

text \<open>
  The stream samples of a record in the order the loops visit them, the samples of one
  direction, and the records whose directed samples carry the two mandatory fields of
  the data model.
\<close>

definition samples_of :: "interval list \<Rightarrow> stream list" where
  "samples_of ivs = concat (map (\<lambda>iv. get_default (streams iv) []) ivs)"

definition all_samples :: "measurement \<Rightarrow> stream list" where
  "all_samples d = samples_of (get_default (intervals d) [])"

definition with_flag :: "bool \<Rightarrow> stream list \<Rightarrow> stream list" where
  "with_flag b ss = filter (\<lambda>s. sender s = Some b) ss"

definition has_mandatory :: "stream \<Rightarrow> bool" where
  "has_mandatory s = (sender s = None \<or> (end_time s \<noteq> None \<and> bytes s \<noteq> None))"

definition well_formed :: "measurement \<Rightarrow> bool" where
  "well_formed d = list_all has_mandatory (all_samples d)"

text \<open>What the extractor returns on a well-formed list of samples, field by field.\<close>

definition series_of :: "stream list \<Rightarrow> series" where
  "series_of ss =
     \<lparr>sender_times = map (\<lambda>s. the (end_time s)) (with_flag True ss),
      sender_bytes = map (\<lambda>s. the (bytes s)) (with_flag True ss),
      receiver_times = map (\<lambda>s. the (end_time s)) (with_flag False ss),
      receiver_bytes = map (\<lambda>s. the (bytes s)) (with_flag False ss),
      packet_loss = map (\<lambda>s. get_default (lost_percent s) (PyInt 0)) (with_flag False ss),
      jitter = map (\<lambda>s. get_default (jitter_ms s) (PyInt 0)) (with_flag False ss)\<rparr>"

definition append_series :: "series \<Rightarrow> series \<Rightarrow> series" where
  "append_series a b =
     \<lparr>sender_times = sender_times a @ sender_times b,
      sender_bytes = sender_bytes a @ sender_bytes b,
      receiver_times = receiver_times a @ receiver_times b,
      receiver_bytes = receiver_bytes a @ receiver_bytes b,
      packet_loss = packet_loss a @ packet_loss b,
      jitter = jitter a @ jitter b\<rparr>"

lemma append_series_empty: "append_series acc (series_of []) = acc"
  by (simp add: append_series_def series_of_def with_flag_def)

lemma stream_step_ok:
  assumes "has_mandatory s"
  shows "stream_step acc s = Inr (append_series acc (series_of [s]))"
proof (cases "sender s")
  case None
  then show ?thesis
    by (simp add: stream_step_def append_series_def series_of_def with_flag_def)
next
  case (Some b)
  with assms obtain t n where tn: "end_time s = Some t" "bytes s = Some n"
    by (auto simp: has_mandatory_def)
  show ?thesis
    using Some tn
    by (cases b)
      (simp_all add: stream_step_def subscript_def append_series_def series_of_def with_flag_def)
qed

lemma append_series_assoc:
  "append_series (append_series a (series_of [s])) (series_of ss) =
   append_series a (series_of (s # ss))"
  by (simp add: append_series_def series_of_def with_flag_def)

lemma streams_loop_ok:
  "list_all has_mandatory ss \<Longrightarrow>
   streams_loop acc ss = Inr (append_series acc (series_of ss))"
proof (induction ss arbitrary: acc)
  case Nil
  then show ?case by (simp add: append_series_empty)
next
  case (Cons s ss)
  then show ?case
    by (simp add: stream_step_ok append_series_assoc)
qed

lemma series_of_append:
  "append_series (append_series a (series_of xs)) (series_of ys) =
   append_series a (series_of (xs @ ys))"
  by (simp add: append_series_def series_of_def with_flag_def)

lemma intervals_loop_ok:
  "list_all has_mandatory (samples_of ivs) \<Longrightarrow>
   intervals_loop acc ivs = Inr (append_series acc (series_of (samples_of ivs)))"
proof (induction ivs arbitrary: acc)
  case Nil
  then show ?case by (simp add: samples_of_def append_series_empty)
next
  case (Cons iv ivs)
  have split: "samples_of (iv # ivs) = get_default (streams iv) [] @ samples_of ivs"
    by (simp add: samples_of_def)
  from Cons.prems have a: "list_all has_mandatory (get_default (streams iv) [])"
    and b: "list_all has_mandatory (samples_of ivs)"
    by (simp_all add: split)
  show ?case
    by (simp add: streams_loop_ok [OF a] Cons.IH [OF b] series_of_append split)
qed

lemma extract_ok:
  "well_formed d \<Longrightarrow> extract_performance_metrics d = Inr (series_of (all_samples d))"
proof -
  assume "well_formed d"
  then have "list_all has_mandatory (samples_of (get_default (intervals d) []))"
    by (simp add: well_formed_def all_samples_def)
  from intervals_loop_ok [OF this, of empty_series]
  show ?thesis
    by (simp add: extract_performance_metrics_def all_samples_def append_series_def
        empty_series_def)
qed

text \<open>Some concrete records.\<close>

definition sender_sample :: stream where
  "sender_sample = \<lparr>sender = Some True, end_time = Some (PyFloat 1), bytes = Some (PyInt 1000),
     lost_percent = None, jitter_ms = None\<rparr>"

definition receiver_sample :: stream where
  "receiver_sample = \<lparr>sender = Some False, end_time = Some (PyFloat 1), bytes = Some (PyInt 900),
     lost_percent = None, jitter_ms = Some (PyFloat 2)\<rparr>"

definition unknown_sample :: stream where
  "unknown_sample = \<lparr>sender = None, end_time = None, bytes = None,
     lost_percent = None, jitter_ms = None\<rparr>"

definition example_record :: measurement where
  "example_record = \<lparr>intervals = Some [\<lparr>streams = Some [sender_sample, receiver_sample]\<rparr>,
     \<lparr>streams = None\<rparr>, \<lparr>streams = Some [unknown_sample, receiver_sample]\<rparr>]\<rparr>"

lemma example_record_samples:
  "all_samples example_record = [sender_sample, receiver_sample, unknown_sample, receiver_sample]"
  by (simp add: all_samples_def samples_of_def example_record_def get_default_def)

lemma example_record_well_formed: "well_formed example_record"
  by (simp add: well_formed_def example_record_samples has_mandatory_def
      sender_sample_def receiver_sample_def unknown_sample_def)

text \<open>
  C2. On a record whose directed samples carry their end time and byte count, the
  extractor returns (it does not raise), the two sender lists are as long as the number
  of samples whose flag is true, and the receiver, loss and jitter lists are as long as
  the number of samples whose flag is false. A sample with an absent flag is in neither
  count, so it contributes to no list.
\<close>

theorem extract_series_lengths:
  assumes "well_formed d"
  shows "\<exists>r. extract_performance_metrics d = Inr r
      \<and> length (sender_times r) = length (with_flag True (all_samples d))
      \<and> length (sender_bytes r) = length (with_flag True (all_samples d))
      \<and> length (receiver_times r) = length (with_flag False (all_samples d))
      \<and> length (receiver_bytes r) = length (with_flag False (all_samples d))
      \<and> length (packet_loss r) = length (with_flag False (all_samples d))
      \<and> length (jitter r) = length (with_flag False (all_samples d))"
  using extract_ok [OF assms] by (simp add: series_of_def)

theorem extract_series_lengths_witness:
  "well_formed example_record
   \<and> (\<exists>r. extract_performance_metrics example_record = Inr r
      \<and> length (sender_times r) = 1 \<and> length (sender_bytes r) = 1
      \<and> length (receiver_times r) = 2 \<and> length (receiver_bytes r) = 2
      \<and> length (packet_loss r) = 2 \<and> length (jitter r) = 2)"
  using extract_series_lengths [OF example_record_well_formed]
  by (auto simp: example_record_well_formed example_record_samples with_flag_def
      sender_sample_def receiver_sample_def unknown_sample_def)

text \<open>
  C9. On the same records the loss list holds, for each receiver sample in order, its
  \<^verbatim>\<open>lost_percent\<close> or the integer 0 when the field is missing, and the jitter list its
  \<^verbatim>\<open>jitter_ms\<close> or 0; both are as long as the receiver time axis. The hypothesis says
  nothing about the optional fields: whether they are present or not, the extractor
  returns.
\<close>

theorem extract_optional_defaults:
  assumes "well_formed d"
  shows "\<exists>r. extract_performance_metrics d = Inr r
      \<and> packet_loss r = map (\<lambda>s. case lost_percent s of None \<Rightarrow> PyInt 0 | Some v \<Rightarrow> v)
            (with_flag False (all_samples d))
      \<and> jitter r = map (\<lambda>s. case jitter_ms s of None \<Rightarrow> PyInt 0 | Some v \<Rightarrow> v)
            (with_flag False (all_samples d))
      \<and> length (packet_loss r) = length (receiver_times r)
      \<and> length (jitter r) = length (receiver_times r)"
  using extract_ok [OF assms] by (simp add: series_of_def get_default_def)

theorem extract_optional_defaults_witness:
  "well_formed example_record
   \<and> (\<exists>r. extract_performance_metrics example_record = Inr r
      \<and> packet_loss r = [PyInt 0, PyInt 0]
      \<and> jitter r = [PyFloat 2, PyFloat 2]
      \<and> length (receiver_times r) = 2)"
  using extract_optional_defaults [OF example_record_well_formed]
  by (auto simp: example_record_well_formed example_record_samples with_flag_def
      sender_sample_def receiver_sample_def unknown_sample_def)

section \<open>Python strings and lists\<close>

text \<open>
  A Python string is a list of characters, one \<^typ>\<open>char\<close> per code point: the model reads
  the 256 values of \<^typ>\<open>char\<close> as the code points 0 to 255, and \<^verbatim>\<open>len\<close> is
  \<^const>\<open>length\<close>. On that range \<^verbatim>\<open>str.isspace\<close> (which \<^verbatim>\<open>str.strip\<close> and the
  pattern \<^verbatim>\<open>\s\<close> use) holds of the twelve characters below, the pattern \<^verbatim>\<open>\d\<close>
  of the ten decimal digits, and \<^verbatim>\<open>str.isdigit\<close> of these and of the three superscript
  digits.
\<close>

definition py_isspace :: "char \<Rightarrow> bool" where
  "py_isspace c = (c \<in> set [CHR 0x09, CHR 0x0A, CHR 0x0B, CHR 0x0C, CHR 0x0D, CHR 0x1C, CHR 0x1D,
     CHR 0x1E, CHR 0x1F, CHR 0x20, CHR 0x85, CHR 0xA0])"

definition re_digit :: "char \<Rightarrow> bool" where
  "re_digit c = (c \<in> set ''0123456789'')"

definition py_isdigit :: "char \<Rightarrow> bool" where
  "py_isdigit c = (re_digit c \<or> c \<in> set [CHR 0xB2, CHR 0xB3, CHR 0xB9])"

definition py_strip :: "string \<Rightarrow> string" where
  "py_strip s = rev (dropWhile py_isspace (rev (dropWhile py_isspace s)))"

text \<open>
  \<^verbatim>\<open>s.split(sep)\<close> and \<^verbatim>\<open>sep.join(rows)\<close> for a separator of one character,
  \<^verbatim>\<open>sub in s\<close>, \<^verbatim>\<open>s.find(c)\<close> and \<^verbatim>\<open>s.rfind(c)\<close> (the index, or -1),
  \<^verbatim>\<open>s.replace(old, new)\<close> for \<^verbatim>\<open>old\<close> of one character, and \<^verbatim>\<open>c * n\<close>, which is
  empty when \<^verbatim>\<open>n\<close> is negative.
\<close>

fun py_split :: "char \<Rightarrow> string \<Rightarrow> string list" where
  "py_split sep [] = [[]]"
| "py_split sep (c # cs) =
     (if c = sep then [] # py_split sep cs
      else (case py_split sep cs of [] \<Rightarrow> [[c]] | l # ls \<Rightarrow> (c # l) # ls))"

fun py_join :: "string \<Rightarrow> string list \<Rightarrow> string" where
  "py_join sep [] = []"
| "py_join sep [l] = l"
| "py_join sep (l # ls) = l @ sep @ py_join sep ls"

fun py_in :: "string \<Rightarrow> string \<Rightarrow> bool" where
  "py_in sub [] = (sub = [])"
| "py_in sub (c # cs) = (prefix sub (c # cs) \<or> py_in sub cs)"

fun py_find :: "char \<Rightarrow> string \<Rightarrow> int" where
  "py_find c [] = - 1"
| "py_find c (x # xs) = (if x = c then 0 else (let r = py_find c xs in if r = - 1 then - 1 else r + 1))"

fun py_rfind :: "char \<Rightarrow> string \<Rightarrow> int" where
  "py_rfind c [] = - 1"
| "py_rfind c (x # xs) =
     (let r = py_rfind c xs in if r \<noteq> - 1 then r + 1 else if x = c then 0 else - 1)"

definition py_replace :: "char \<Rightarrow> string \<Rightarrow> string \<Rightarrow> string" where
  "py_replace old new s = concat (map (\<lambda>c. if c = old then new else [c]) s)"

definition py_repeat :: "char \<Rightarrow> int \<Rightarrow> string" where
  "py_repeat c n = replicate (nat n) c"

text \<open>
  Subscripting. \<^verbatim>\<open>xs[i]\<close> counts a negative index from the end and raises
  \<^verbatim>\<open>IndexError\<close> outside the list: the read and the write return \<open>None\<close> there,
  and \<open>None\<close> is how every function of the post-processor below says that the code
  raises.
\<close>

definition py_index :: "int \<Rightarrow> nat \<Rightarrow> nat option" where
  "py_index i n =
     (if 0 \<le> i \<and> i < int n then Some (nat i)
      else if i < 0 \<and> - int n \<le> i then Some (nat (int n + i))
      else None)"

definition py_get :: "'a list \<Rightarrow> int \<Rightarrow> 'a option" where
  "py_get xs i = map_option (\<lambda>k. xs ! k) (py_index i (length xs))"

definition py_set :: "'a list \<Rightarrow> int \<Rightarrow> 'a \<Rightarrow> 'a list option" where
  "py_set xs i v = map_option (\<lambda>k. xs[k := v]) (py_index i (length xs))"

text \<open>
  The two patterns of the post-processor are sequences of character classes, each
  repeated greedily (\<^verbatim>\<open>*\<close>: at least 0 times, \<^verbatim>\<open>+\<close>: at least once) and anchored at
  the start of the string. \<open>re_match\<close> is the backtracking search of Python's
  \<^verbatim>\<open>re\<close> on such a pattern: every item first takes the longest run of its class and
  gives characters back one at a time while the rest of the pattern fails. The result is
  the text each item matched, or \<open>None\<close> when there is no match.
  \<open>label_re\<close> is \<^verbatim>\<open>^\s*([0-9.e+\-\s]+)\<close>, whose group 1 is its second item;
  \<open>scale_re\<close> is \<^verbatim>\<open>^\s*\d+\s+\d+\s+\d+\<close>.
\<close>

type_synonym re_item = "(char \<Rightarrow> bool) \<times> nat"

fun re_match :: "re_item list \<Rightarrow> string \<Rightarrow> string list option"
  and re_try :: "re_item \<Rightarrow> re_item list \<Rightarrow> string \<Rightarrow> nat \<Rightarrow> string list option" where
  "re_match [] s = Some []"
| "re_match (it # items) s = re_try it items s (length (takeWhile (fst it) s))"
| "re_try it items s 0 =
     (if snd it = 0 then map_option (\<lambda>gs. [] # gs) (re_match items s) else None)"
| "re_try it items s (Suc k) =
     (if Suc k < snd it then None
      else (case re_match items (drop (Suc k) s) of
              Some gs \<Rightarrow> Some (take (Suc k) s # gs)
            | None \<Rightarrow> re_try it items s k))"

definition numeric_class :: "char \<Rightarrow> bool" where
  "numeric_class c = (re_digit c \<or> c \<in> set ''.e+-'' \<or> py_isspace c)"

definition label_re :: "re_item list" where
  "label_re = [(py_isspace, 0), (numeric_class, 1)]"

definition scale_re :: "re_item list" where
  "scale_re = [(py_isspace, 0), (re_digit, 1), (py_isspace, 1), (re_digit, 1), (py_isspace, 1), (re_digit, 1)]"

section \<open>The chart post-processor\<close>

text \<open>
  \<^verbatim>\<open>_post_process_ascii_output\<close>, lines 315 to 495, pass by pass on the list of rows.
  \<^verbatim>\<open>range(a, b)\<close> and \<^verbatim>\<open>enumerate(xs)\<close> are the lists the loops run over.
\<close>

definition py_range :: "int \<Rightarrow> int \<Rightarrow> int list" where
  "py_range a b = [a..b - 1]"

definition py_enumerate :: "'a list \<Rightarrow> (int \<times> 'a) list" where
  "py_enumerate xs = zip (map int [0..<length xs]) xs"

text \<open>
  The configuration. \<^verbatim>\<open>self.config\<close> is a \<^verbatim>\<open>ConfigManager\<close> around a
  \<^verbatim>\<open>configparser.ConfigParser\<close>, and the code reads each option from its section
  \<^verbatim>\<open>DEFAULT\<close> at the moment it needs it (lines 93 to 99). For one option key the parser
  either has no such option, or holds a value that interpolates to a string, or holds a
  value whose interpolation raises (a stray percent sign, a reference to an option that
  does not exist): the configuration is the function that says which, for every key.
  \<^verbatim>\<open>get\<close> returns its fallback only when the option is missing. \<^verbatim>\<open>get_bool\<close> is
  \<^verbatim>\<open>getboolean\<close>: it looks the lower-cased string up in the parser's table of boolean
  words and raises \<^verbatim>\<open>ValueError\<close> on every other string. As everywhere in the
  post-processor, \<open>None\<close> is a raise.
\<close>

datatype stored = NoOption | Stored string | BadInterpolation

type_synonym config = "string \<Rightarrow> stored"

definition py_lower :: "string \<Rightarrow> string" where
  "py_lower s =
     map (\<lambda>c. let n = (of_char c :: nat)
               in if (65 \<le> n \<and> n \<le> 90) \<or> (192 \<le> n \<and> n \<le> 222 \<and> n \<noteq> 215)
                  then char_of (n + 32) else c) s"

definition boolean_states :: "(string \<times> bool) list" where
  "boolean_states =
     [(''1'', True), (''yes'', True), (''true'', True), (''on'', True),
      (''0'', False), (''no'', False), (''false'', False), (''off'', False)]"

definition convert_to_boolean :: "string \<Rightarrow> bool option" where
  "convert_to_boolean v = map_of boolean_states (py_lower v)"

definition get :: "config \<Rightarrow> string \<Rightarrow> string \<Rightarrow> string option" where
  "get cfg key fallback =
     (case cfg key of NoOption \<Rightarrow> Some fallback | Stored v \<Rightarrow> Some v | BadInterpolation \<Rightarrow> None)"

definition get_bool :: "config \<Rightarrow> string \<Rightarrow> bool \<Rightarrow> bool option" where
  "get_bool cfg key fallback =
     (case cfg key of
        NoOption \<Rightarrow> Some fallback
      | Stored v \<Rightarrow> convert_to_boolean v
      | BadInterpolation \<Rightarrow> None)"

text \<open>The options \<^verbatim>\<open>_set_defaults\<close> stores (lines 61 to 91), and a parser that holds them.\<close>

definition set_defaults :: "(string \<times> string) list" where
  "set_defaults =
     [(''default_input_file'', ''data/data.json''),
      (''default_output_dir'', ''graphs_ascii''),
      (''graph_width'', ''120''),
      (''graph_height'', ''30''),
      (''precision_digits'', ''6''),
      (''plot_char_primary'', ''*''),
      (''plot_char_secondary'', ''A''),
      (''plot_char_points'', ''+''),
      (''plot_style'', ''linespoints''),
      (''show_ylabel_inline'', ''true''),
      (''ylabel_position'', ''left''),
      (''ylabel_rotation'', ''vertical''),
      (''compact_ylabel'', ''true''),
      (''show_axis_info_below'', ''false''),
      (''terminal_type'', ''dumb''),
      (''enable_grid'', ''true''),
      (''enable_legend'', ''true''),
      (''legend_position'', ''top left''),
      (''skip_malformed_entries'', ''true''),
      (''interpolate_missing_data'', ''false''),
      (''include_timestamp'', ''true''),
      (''include_metadata'', ''true''),
      (''verbose_output'', ''true''),
      (''track_sender_bytes'', ''true''),
      (''track_receiver_bytes'', ''true''),
      (''track_packet_loss'', ''true''),
      (''track_jitter'', ''true''),
      (''track_bandwidth'', ''false''),
      (''track_retransmissions'', ''false'')]"

definition parser_of :: "(string \<times> string) list \<Rightarrow> config" where
  "parser_of options key = (case map_of options key of None \<Rightarrow> NoOption | Some v \<Rightarrow> Stored v)"

definition default_config :: config where
  "default_config = parser_of set_defaults"

text \<open>
  Lines 337 to 345: the first and the last index of a row that holds a vertical bar and
  is longer than 50 characters, or -1 for both.
\<close>

definition is_box_row :: "string \<Rightarrow> bool" where
  "is_box_row line = (CHR ''|'' \<in> set line \<and> length line > 50)"

fun find_graph_area :: "int \<Rightarrow> string list \<Rightarrow> int \<times> int \<Rightarrow> int \<times> int" where
  "find_graph_area i [] se = se"
| "find_graph_area i (line # rest) (graph_start, graph_end) =
     find_graph_area (i + 1) rest
       (if is_box_row line then (if graph_start = - 1 then i else graph_start, i)
        else (graph_start, graph_end))"

text \<open>
  Lines 348 to 368, with the two glyphs read at lines 332 and 333. A row that holds a
  protected phrase is skipped; in every other row
  the two glyphs are substituted first and the dashes, underscores and plus signs are
  blanked afterwards. The loop writes \<^verbatim>\<open>lines[i]\<close> at the index \<^verbatim>\<open>enumerate\<close> has
  just produced, so it is a map over the rows.
\<close>

definition protected_phrases :: "string list" where
  "protected_phrases = [''Network'', ''Measurement Data'', ''X Axis:'', ''Y Axis:'']"

definition is_protected :: "string \<Rightarrow> bool" where
  "is_protected line = list_ex (\<lambda>phrase. py_in phrase line) protected_phrases"

definition replace_glyphs :: "string \<Rightarrow> string \<Rightarrow> string \<Rightarrow> string" where
  "replace_glyphs primary_char secondary_char line =
     (let l1 = (if CHR ''*'' \<in> set line \<and> primary_char \<noteq> ''*''
                then py_replace CHR ''*'' primary_char line else line)
      in if CHR ''A'' \<in> set l1 \<and> secondary_char \<noteq> ''A''
         then py_replace CHR ''A'' secondary_char l1 else l1)"

definition strip_decorations :: "string \<Rightarrow> string" where
  "strip_decorations line =
     (let l = py_replace CHR ''_'' '' '' (py_replace CHR ''-'' '' '' line)
      in if CHR ''+'' \<in> set l then py_replace CHR ''+'' '' '' l else l)"

definition glyph_row :: "string \<Rightarrow> string \<Rightarrow> string \<Rightarrow> string" where
  "glyph_row primary_char secondary_char line =
     (if is_protected line then line
      else strip_decorations (replace_glyphs primary_char secondary_char line))"

definition glyph_pass :: "string \<Rightarrow> string \<Rightarrow> string list \<Rightarrow> string list" where
  "glyph_pass primary_char secondary_char lines = map (glyph_row primary_char secondary_char) lines"

text \<open>
  Lines 376 to 384: the first row of the box's extent with a vertical bar gives the
  columns of its first and last bar; the loop breaks there. Lines 397 to 420: the first
  and the last row whose stripped text looks like a tick label.
\<close>

fun find_typical_pipes :: "string list \<Rightarrow> int list \<Rightarrow> (int \<times> int) option" where
  "find_typical_pipes lines [] = Some (- 1, - 1)"
| "find_typical_pipes lines (i # rest) =
     do {
       line \<leftarrow> py_get lines i;
       if CHR ''|'' \<in> set line then Some (py_find CHR ''|'' line, py_rfind CHR ''|'' line)
       else find_typical_pipes lines rest
     }"

definition starts_like_number :: "string \<Rightarrow> bool option" where
  "starts_like_number ls =
     do {
       c0 \<leftarrow> py_get ls 0;
       if py_isdigit c0 then Some True
       else do {
         zero_dot \<leftarrow>
           (if length ls > 1 then do {
              a \<leftarrow> py_get ls 0;
              if a = CHR ''0'' then do { b \<leftarrow> py_get ls 1; Some (b = CHR ''.'') }
              else Some False
            } else Some False);
         if zero_dot then Some True
         else Some (list_ex (\<lambda>d. prefix [d] ls) ''123456789'')
       }
     }"

definition looks_like_tick :: "string \<Rightarrow> bool option" where
  "looks_like_tick ls =
     (if ls \<noteq> [] then do {
        num \<leftarrow> starts_like_number ls;
        if num then
          (if py_in ''e '' ls \<or> py_in ''e+'' ls \<or> py_in ''e-'' ls then Some True
           else if count_list ls CHR '' '' \<le> 2 \<and> list_ex py_isdigit (take 15 ls)
             then Some (re_match scale_re ls = None)
           else Some False)
        else Some False
      } else Some False)"

fun find_tick_rows :: "string list \<Rightarrow> int list \<Rightarrow> int \<times> int \<Rightarrow> (int \<times> int) option" where
  "find_tick_rows lines [] fl = Some fl"
| "find_tick_rows lines (i # rest) (first_y_line, last_y_line) =
     do {
       line \<leftarrow> py_get lines i;
       tick \<leftarrow> looks_like_tick (py_strip line);
       find_tick_rows lines rest
         (if tick then (if first_y_line = - 1 then i else first_y_line, i)
          else (first_y_line, last_y_line))
     }"

text \<open>
  Lines 425 to 440 and again 443 to 458: the row is replaced by its label, right-aligned
  to end one column before the box's left bar when there is room, a space, and the
  border.
\<close>

definition border_line :: "string \<Rightarrow> int \<Rightarrow> int \<Rightarrow> string" where
  "border_line y_value typical_pipe_start border_length =
     (let y_value_end_pos = typical_pipe_start - 1;
          padding_needed = y_value_end_pos - int (length y_value)
      in if padding_needed > 0
         then py_repeat CHR '' '' padding_needed @ y_value @ '' '' @ ''+''
                @ py_repeat CHR ''-'' border_length @ ''+''
         else y_value @ '' '' @ ''+'' @ py_repeat CHR ''-'' border_length @ ''+'')"

definition rewrite_tick_row :: "string list \<Rightarrow> int \<Rightarrow> int \<Rightarrow> int \<Rightarrow> string list option" where
  "rewrite_tick_row lines y_line typical_pipe_start border_length =
     (if y_line < int (length lines) then do {
        line \<leftarrow> py_get lines y_line;
        (case re_match label_re line of
           None \<Rightarrow> Some lines
         | Some groups \<Rightarrow> do {
             g \<leftarrow> py_get groups 1;
             py_set lines y_line (border_line (py_strip g) typical_pipe_start border_length)
           })
      } else Some lines)"

definition reconstruct_borders :: "int \<Rightarrow> int \<Rightarrow> string list \<Rightarrow> string list option" where
  "reconstruct_borders graph_start graph_end lines =
     (if graph_start \<noteq> - 1 \<and> graph_end \<noteq> - 1 then do {
        (typical_pipe_start, typical_pipe_end) \<leftarrow>
          find_typical_pipes lines (py_range graph_start (graph_end + 1));
        let border_length =
          (if typical_pipe_start \<noteq> - 1 \<and> typical_pipe_end \<noteq> - 1
           then typical_pipe_end - typical_pipe_start - 1 else 60);
        (first_y_line, last_y_line) \<leftarrow>
          find_tick_rows lines (py_range 0 (int (length lines))) (- 1, - 1);
        if first_y_line \<noteq> - 1 \<and> last_y_line \<noteq> - 1 \<and> typical_pipe_start \<noteq> - 1 then do {
          lines1 \<leftarrow> rewrite_tick_row lines first_y_line typical_pipe_start border_length;
          rewrite_tick_row lines1 last_y_line typical_pipe_start border_length
        } else Some lines
      } else Some lines)"

text \<open>
  Lines 461 to 482: one character of the label per row, from \<open>middle_start\<close> down, on
  the rows that exist; every other row of the box's extent is indented by two blanks.
\<close>

fun overlay_label :: "int \<Rightarrow> (int \<times> char) list \<Rightarrow> string list \<Rightarrow> string list option" where
  "overlay_label middle_start [] lines = Some lines"
| "overlay_label middle_start ((i, ch) # rest) lines =
     (let line_idx = middle_start + i
      in if 0 \<le> line_idx \<and> line_idx < int (length lines) then do {
           old \<leftarrow> py_get lines line_idx;
           lines' \<leftarrow> py_set lines line_idx (ch # '' '' @ old);
           overlay_label middle_start rest lines'
         } else overlay_label middle_start rest lines)"

fun pad_box_rows :: "int \<Rightarrow> int \<Rightarrow> int \<Rightarrow> int \<Rightarrow> int list \<Rightarrow> string list \<Rightarrow> string list option" where
  "pad_box_rows graph_start graph_end middle_start n [] lines = Some lines"
| "pad_box_rows graph_start graph_end middle_start n (i # rest) lines =
     (if graph_start \<le> i \<and> i \<le> graph_end \<and> \<not> (middle_start \<le> i \<and> i < middle_start + n) then do {
        old \<leftarrow> py_get lines i;
        lines' \<leftarrow> py_set lines i (''  '' @ old);
        pad_box_rows graph_start graph_end middle_start n rest lines'
      } else pad_box_rows graph_start graph_end middle_start n rest lines)"

definition overlay_pass :: "config \<Rightarrow> int \<Rightarrow> int \<Rightarrow> string \<Rightarrow> string list \<Rightarrow> string list option" where
  "overlay_pass cfg graph_start graph_end y_label lines =
     do {
       inline \<leftarrow> get_bool cfg ''show_ylabel_inline'' True;
       if inline then do {
         ylabel_rotation \<leftarrow> get cfg ''ylabel_rotation'' ''vertical'';
         ylabel_position \<leftarrow> get cfg ''ylabel_position'' ''left'';
         if ylabel_rotation = ''vertical'' \<and> ylabel_position = ''left'' then
           (let y_chars = py_replace CHR '' '' ''_'' y_label;
                graph_height = graph_end - graph_start;
                middle_start = graph_start + graph_height div 2 - int (length y_chars) div 2
            in do {
              lines1 \<leftarrow> overlay_label middle_start (py_enumerate y_chars) lines;
              pad_box_rows graph_start graph_end middle_start (int (length y_chars))
                (py_range 0 (int (length lines1))) lines1
            })
         else Some lines
       } else Some lines
     }"

text \<open>Lines 485 to 493: trailing blank rows are popped and three rows appended.\<close>

function pop_blank_rows :: "string list \<Rightarrow> string list option" where
  "pop_blank_rows lines =
     (if lines \<noteq> [] then
        (case py_get lines (- 1) of
           None \<Rightarrow> None
         | Some l \<Rightarrow> if py_strip l = [] then pop_blank_rows (butlast lines) else Some lines)
      else Some lines)"
  by pat_completeness auto
termination
  by (relation "measure length") auto

definition axis_info_pass :: "config \<Rightarrow> string \<Rightarrow> string \<Rightarrow> string list \<Rightarrow> string list option" where
  "axis_info_pass cfg x_label y_label lines =
     do {
       below \<leftarrow> get_bool cfg ''show_axis_info_below'' False;
       if below then do {
         kept \<leftarrow> pop_blank_rows lines;
         Some (kept @ ['''', ''X Axis: '' @ x_label, ''Y Axis: '' @ y_label])
       } else Some lines
     }"

text \<open>
  The whole function. The three glyph options are read first (lines 332 to 334; the
  point glyph is read and not used), the box is looked for in the raw rows, and the
  borders are rebuilt on the rows the glyph pass has produced.
\<close>

definition post_process_lines :: "config \<Rightarrow> string list \<Rightarrow> string \<Rightarrow> string \<Rightarrow> string list option" where
  "post_process_lines cfg lines y_label x_label =
     do {
       primary_char \<leftarrow> get cfg ''plot_char_primary'' ''*'';
       secondary_char \<leftarrow> get cfg ''plot_char_secondary'' ''A'';
       point_char \<leftarrow> get cfg ''plot_char_points'' ''+'';
       let (graph_start, graph_end) = find_graph_area 0 lines (- 1, - 1);
       let lines1 = glyph_pass primary_char secondary_char lines;
       lines2 \<leftarrow> reconstruct_borders graph_start graph_end lines1;
       lines3 \<leftarrow> overlay_pass cfg graph_start graph_end y_label lines2;
       axis_info_pass cfg x_label y_label lines3
     }"

definition post_process_ascii_output :: "config \<Rightarrow> string \<Rightarrow> string \<Rightarrow> string \<Rightarrow> string option" where
  "post_process_ascii_output cfg raw_output y_label x_label =
     (let lines = py_split CHR 0x0A raw_output
      in if lines = [] then Some raw_output
         else map_option (py_join [CHR 0x0A]) (post_process_lines cfg lines y_label x_label))"

section \<open>When the post-processor raises\<close>

subsection \<open>Index access\<close>

lemma py_get_in_range:
  "0 \<le> i \<Longrightarrow> i < int (length xs) \<Longrightarrow> py_get xs i = Some (xs ! nat i)"
  by (simp add: py_get_def py_index_def)

lemma py_set_in_range:
  "0 \<le> i \<Longrightarrow> i < int (length xs) \<Longrightarrow> py_set xs i v = Some (xs[nat i := v])"
  by (simp add: py_set_def py_index_def)

lemma py_get_last: "xs \<noteq> [] \<Longrightarrow> py_get xs (- 1) = Some (last xs)"
  by (cases xs rule: rev_cases) (auto simp: py_get_def py_index_def nth_append)

lemma py_range_set: "set (py_range a b) = {i. a \<le> i \<and> i < b}"
  by (auto simp: py_range_def)

subsection \<open>The scans\<close>

lemma find_graph_area_bounds:
  assumes "(gs = - 1 \<and> ge = - 1) \<or> (0 \<le> gs \<and> gs \<le> ge \<and> ge < i)" and "0 \<le> i"
    and "find_graph_area i lines (gs, ge) = (gs', ge')"
  shows "(gs' = - 1 \<and> ge' = - 1) \<or> (0 \<le> gs' \<and> gs' \<le> ge' \<and> ge' < i + int (length lines))"
  using assms
proof (induction lines arbitrary: i gs ge)
  case Nil
  then show ?case by auto
next
  case (Cons line rest)
  let ?st = "if is_box_row line then (if gs = - 1 then i else gs, i) else (gs, ge)"
  have step: "find_graph_area (i + 1) rest (fst ?st, snd ?st) = (gs', ge')"
    using Cons.prems(3) by (simp split: if_splits)
  have inv: "(fst ?st = - 1 \<and> snd ?st = - 1) \<or> (0 \<le> fst ?st \<and> fst ?st \<le> snd ?st \<and> snd ?st < i + 1)"
    using Cons.prems(1,2) by auto
  from Cons.IH [OF inv _ step] Cons.prems(2) show ?case by auto
qed

lemma graph_area_bounds:
  "find_graph_area 0 lines (- 1, - 1) = (gs, ge) \<Longrightarrow>
   (gs = - 1 \<and> ge = - 1) \<or> (0 \<le> gs \<and> gs \<le> ge \<and> ge < int (length lines))"
  using find_graph_area_bounds [of "- 1" "- 1" 0 lines gs ge] by simp

lemma find_typical_pipes_total:
  "\<forall>i \<in> set idx. 0 \<le> i \<and> i < int (length lines) \<Longrightarrow>
   \<exists>r. find_typical_pipes lines idx = Some r"
  by (induction idx) (auto simp: py_get_in_range)

lemma starts_like_number_total: "ls \<noteq> [] \<Longrightarrow> \<exists>b. starts_like_number ls = Some b"
  by (cases ls; cases "tl ls") (auto simp: starts_like_number_def py_get_def py_index_def)

lemma looks_like_tick_total: "\<exists>b. looks_like_tick ls = Some b"
proof (cases "ls = []")
  case True
  then show ?thesis by (auto simp: looks_like_tick_def)
next
  case False
  from starts_like_number_total [OF this] obtain b where "starts_like_number ls = Some b" ..
  with False show ?thesis by (auto simp: looks_like_tick_def)
qed

lemma find_tick_rows_total:
  assumes "\<forall>i \<in> set idx. 0 \<le> i \<and> i < n"
    and "n = int (length lines)"
    and "(f = - 1 \<and> l = - 1) \<or> (0 \<le> f \<and> f < n \<and> 0 \<le> l \<and> l < n)"
  shows "\<exists>f' l'. find_tick_rows lines idx (f, l) = Some (f', l')
     \<and> ((f' = - 1 \<and> l' = - 1) \<or> (0 \<le> f' \<and> f' < n \<and> 0 \<le> l' \<and> l' < n))"
  using assms
proof (induction idx arbitrary: f l)
  case Nil
  then show ?case by simp
next
  case (Cons i rest)
  from Cons.prems have i: "0 \<le> i" "i < int (length lines)" by auto
  obtain t where t: "looks_like_tick (py_strip (lines ! nat i)) = Some t"
    using looks_like_tick_total by blast
  let ?f = "if t then (if f = - 1 then i else f) else f"
  let ?l = "if t then i else l"
  have inv: "(?f = - 1 \<and> ?l = - 1) \<or> (0 \<le> ?f \<and> ?f < n \<and> 0 \<le> ?l \<and> ?l < n)"
    using Cons.prems i by auto
  have rest: "\<forall>i \<in> set rest. 0 \<le> i \<and> i < n" using Cons.prems(1) by simp
  have step: "find_tick_rows lines (i # rest) (f, l) = find_tick_rows lines rest (?f, ?l)"
    using i t by (simp add: py_get_in_range)
  from Cons.IH [OF rest Cons.prems(2) inv] show ?case
    unfolding step .
qed

subsection \<open>The pattern matcher\<close>

lemma re_match_length:
  "re_match items s = Some gs \<Longrightarrow> length gs = length items"
  "re_try it items s k = Some gs \<Longrightarrow> length gs = Suc (length items)"
  by (induction items s and it items s k arbitrary: gs and gs rule: re_match_re_try.induct)
    (auto split: if_splits option.splits)

subsection \<open>The rewriting passes\<close>

lemma rewrite_tick_row_total:
  assumes "0 \<le> y"
  shows "\<exists>out. rewrite_tick_row lines y tps bl = Some out \<and> length out = length lines"
proof (cases "y < int (length lines)")
  case False
  then show ?thesis by (simp add: rewrite_tick_row_def)
next
  case True
  show ?thesis
  proof (cases "re_match label_re (lines ! nat y)")
    case None
    with True assms show ?thesis by (simp add: rewrite_tick_row_def py_get_in_range)
  next
    case (Some groups)
    from re_match_length(1) [OF Some] have "length groups = 2" by (simp add: label_re_def)
    then have "py_get groups 1 = Some (groups ! 1)" by (simp add: py_get_in_range)
    with True assms Some show ?thesis
      by (simp add: rewrite_tick_row_def py_get_in_range py_set_in_range)
  qed
qed

lemma reconstruct_borders_total:
  assumes "(gs = - 1 \<and> ge = - 1) \<or> (0 \<le> gs \<and> gs \<le> ge \<and> ge < int (length lines))"
  shows "\<exists>out. reconstruct_borders gs ge lines = Some out \<and> length out = length lines"
proof (cases "gs \<noteq> - 1 \<and> ge \<noteq> - 1")
  case False
  then show ?thesis by (auto simp: reconstruct_borders_def)
next
  case True
  with assms have "\<forall>i \<in> set (py_range gs (ge + 1)). 0 \<le> i \<and> i < int (length lines)"
    by (auto simp: py_range_set)
  from find_typical_pipes_total [OF this] obtain tps tpe
    where tp: "find_typical_pipes lines (py_range gs (ge + 1)) = Some (tps, tpe)" by force
  have "\<forall>i \<in> set (py_range 0 (int (length lines))). 0 \<le> i \<and> i < int (length lines)"
    by (auto simp: py_range_set)
  from find_tick_rows_total [OF this refl, of "- 1" "- 1"] obtain f l
    where tk: "find_tick_rows lines (py_range 0 (int (length lines))) (- 1, - 1) = Some (f, l)"
      and fl: "(f = - 1 \<and> l = - 1) \<or> (0 \<le> f \<and> 0 \<le> l)" by auto
  show ?thesis
  proof (cases "f \<noteq> - 1 \<and> l \<noteq> - 1 \<and> tps \<noteq> - 1")
    case False
    with True tp tk show ?thesis by (auto simp: reconstruct_borders_def)
  next
    case rewrite: True
    define bl where "bl = (if tps \<noteq> - 1 \<and> tpe \<noteq> - 1 then tpe - tps - 1 else 60)"
    from rewrite fl have f: "0 \<le> f" and l: "0 \<le> l" by auto
    from rewrite_tick_row_total [OF f] obtain l1
      where l1: "rewrite_tick_row lines f tps bl = Some l1" "length l1 = length lines" by blast
    from rewrite_tick_row_total [OF l] obtain l2
      where l2: "rewrite_tick_row l1 l tps bl = Some l2" "length l2 = length l1" by blast
    from True tp tk rewrite l1 l2 show ?thesis
      by (simp add: reconstruct_borders_def bl_def)
  qed
qed

lemma overlay_label_total:
  "\<exists>out. overlay_label ms chars lines = Some out \<and> length out = length lines"
proof (induction chars arbitrary: lines)
  case Nil
  then show ?case by simp
next
  case (Cons p rest)
  obtain i ch where p: "p = (i, ch)" by (cases p)
  show ?case
  proof (cases "0 \<le> ms + i \<and> ms + i < int (length lines)")
    case False
    with Cons.IH [of lines] p show ?thesis by (auto simp: Let_def)
  next
    case True
    let ?new = "lines[nat (ms + i) := ch # '' '' @ lines ! nat (ms + i)]"
    from Cons.IH [of ?new] True p show ?thesis
      by (simp add: Let_def py_get_in_range py_set_in_range)
  qed
qed

lemma pad_box_rows_total:
  "\<forall>i \<in> set idx. 0 \<le> i \<and> i < int (length lines) \<Longrightarrow>
   \<exists>out. pad_box_rows gs ge ms n idx lines = Some out \<and> length out = length lines"
proof (induction idx arbitrary: lines)
  case Nil
  then show ?case by simp
next
  case (Cons i rest)
  from Cons.prems have i: "0 \<le> i" "i < int (length lines)" by auto
  let ?new = "lines[nat i := ''  '' @ lines ! nat i]"
  have "\<forall>j \<in> set rest. 0 \<le> j \<and> j < int (length ?new)" using Cons.prems by simp
  from Cons.IH [OF this] Cons.IH [of lines] Cons.prems i show ?case
    by (simp add: py_get_in_range py_set_in_range)
qed

lemma pop_blank_rows_total: "\<exists>out. pop_blank_rows lines = Some out"
proof (induction lines rule: pop_blank_rows.induct)
  case (1 lines)
  show ?case
  proof (cases "lines = []")
    case True
    then show ?thesis by simp
  next
    case False
    with "1.IH" [OF False py_get_last [OF False]] show ?thesis
      by (subst pop_blank_rows.simps) (simp add: py_get_last)
  qed
qed

lemma overlay_arm_total:
  "\<exists>out. do {
       lines1 \<leftarrow> overlay_label ms (py_enumerate y_chars) lines;
       pad_box_rows gs ge ms n (py_range 0 (int (length lines1))) lines1
     } = Some out \<and> length out = length lines"
proof -
  obtain l1 where l1: "overlay_label ms (py_enumerate y_chars) lines = Some l1"
    "length l1 = length lines" using overlay_label_total by blast
  have "\<forall>i \<in> set (py_range 0 (int (length l1))). 0 \<le> i \<and> i < int (length l1)"
    by (auto simp: py_range_set)
  from pad_box_rows_total [OF this] obtain l2
    where "pad_box_rows gs ge ms n (py_range 0 (int (length l1))) l1 = Some l2"
      "length l2 = length l1" by blast
  with l1 show ?thesis by simp
qed

text \<open>
  The reads of the overlay pass succeed: the inline flag is readable, and when it is
  set, so are the rotation and the position.
\<close>

definition overlay_options_readable :: "config \<Rightarrow> bool" where
  "overlay_options_readable cfg =
     (case get_bool cfg ''show_ylabel_inline'' True of
        None \<Rightarrow> False
      | Some inline \<Rightarrow>
          \<not> inline \<or> (get cfg ''ylabel_rotation'' ''vertical'' \<noteq> None
                       \<and> get cfg ''ylabel_position'' ''left'' \<noteq> None))"

lemma overlay_pass_total:
  "(\<exists>out. overlay_pass cfg gs ge y_label lines = Some out) = overlay_options_readable cfg"
proof (cases "get_bool cfg ''show_ylabel_inline'' True")
  case None
  then show ?thesis by (simp add: overlay_pass_def overlay_options_readable_def)
next
  case (Some inline)
  show ?thesis
  proof (cases inline)
    case False
    with Some show ?thesis by (simp add: overlay_pass_def overlay_options_readable_def)
  next
    case True
    show ?thesis
    proof (cases "get cfg ''ylabel_rotation'' ''vertical''")
      case None
      with Some True show ?thesis by (simp add: overlay_pass_def overlay_options_readable_def)
    next
      case rot: (Some r)
      show ?thesis
      proof (cases "get cfg ''ylabel_position'' ''left''")
        case None
        with Some True rot show ?thesis
          by (simp add: overlay_pass_def overlay_options_readable_def)
      next
        case pos: (Some p)
        have ok: "overlay_options_readable cfg"
          using Some True rot pos by (simp add: overlay_options_readable_def)
        show ?thesis
        proof (cases "r = ''vertical'' \<and> p = ''left''")
          case False
          with Some True rot pos ok show ?thesis by (auto simp: overlay_pass_def)
        next
          case arm: True
          from overlay_arm_total obtain out where
            "do {
               lines1 \<leftarrow> overlay_label (gs + (ge - gs) div 2 - int (length (py_replace CHR '' '' ''_'' y_label)) div 2)
                  (py_enumerate (py_replace CHR '' '' ''_'' y_label)) lines;
               pad_box_rows gs ge (gs + (ge - gs) div 2 - int (length (py_replace CHR '' '' ''_'' y_label)) div 2)
                 (int (length (py_replace CHR '' '' ''_'' y_label))) (py_range 0 (int (length lines1))) lines1
             } = Some out" by blast
          with Some True rot pos arm ok show ?thesis
            by (simp add: overlay_pass_def Let_def)
        qed
      qed
    qed
  qed
qed

lemma axis_info_pass_total:
  "(\<exists>out. axis_info_pass cfg x_label y_label lines = Some out) =
   (get_bool cfg ''show_axis_info_below'' False \<noteq> None)"
  using pop_blank_rows_total [of lines]
  by (cases "get_bool cfg ''show_axis_info_below'' False") (auto simp: axis_info_pass_def)

text \<open>
  Every option read the function makes succeeds: the three glyphs, the options of the
  overlay pass, and the flag of the axis information.
\<close>

definition options_readable :: "config \<Rightarrow> bool" where
  "options_readable cfg =
     (get cfg ''plot_char_primary'' ''*'' \<noteq> None
      \<and> get cfg ''plot_char_secondary'' ''A'' \<noteq> None
      \<and> get cfg ''plot_char_points'' ''+'' \<noteq> None
      \<and> overlay_options_readable cfg
      \<and> get_bool cfg ''show_axis_info_below'' False \<noteq> None)"

lemma post_process_lines_total:
  "(\<exists>out. post_process_lines cfg lines y_label x_label = Some out) = options_readable cfg"
proof (cases "get cfg ''plot_char_primary'' ''*'' \<noteq> None
    \<and> get cfg ''plot_char_secondary'' ''A'' \<noteq> None \<and> get cfg ''plot_char_points'' ''+'' \<noteq> None")
  case False
  then show ?thesis by (auto simp: post_process_lines_def options_readable_def)
next
  case True
  then obtain p s pt where glyphs: "get cfg ''plot_char_primary'' ''*'' = Some p"
    "get cfg ''plot_char_secondary'' ''A'' = Some s" "get cfg ''plot_char_points'' ''+'' = Some pt"
    by auto
  obtain gs ge where area: "find_graph_area 0 lines (- 1, - 1) = (gs, ge)" by force
  from graph_area_bounds [OF area]
  have "(gs = - 1 \<and> ge = - 1) \<or> (0 \<le> gs \<and> gs \<le> ge \<and> ge < int (length (glyph_pass p s lines)))"
    by (simp add: glyph_pass_def)
  from reconstruct_borders_total [OF this] obtain l2
    where l2: "reconstruct_borders gs ge (glyph_pass p s lines) = Some l2" by blast
  have run: "post_process_lines cfg lines y_label x_label =
      do { lines3 \<leftarrow> overlay_pass cfg gs ge y_label l2; axis_info_pass cfg x_label y_label lines3 }"
    using glyphs area l2 by (simp add: post_process_lines_def)
  show ?thesis
  proof (cases "overlay_pass cfg gs ge y_label l2")
    case None
    with overlay_pass_total [of cfg gs ge y_label l2] have "\<not> overlay_options_readable cfg" by simp
    with None run show ?thesis by (simp add: options_readable_def)
  next
    case (Some l3)
    with overlay_pass_total [of cfg gs ge y_label l2] have "overlay_options_readable cfg" by auto
    with Some run glyphs axis_info_pass_total [of cfg x_label y_label l3] show ?thesis
      by (simp add: options_readable_def)
  qed
qed

lemma py_split_not_Nil: "py_split sep s \<noteq> []"
  by (induction s) (auto split: list.splits)

text \<open>
  C10 (amended). For every raw output, both axis labels and every configuration, the
  post-processing function returns a string exactly when the option reads it makes
  succeed. Every subscript of the model is a checked one, so no row or character is
  read or written outside its list, and a failing option read is the only way the
  function raises.
\<close>

theorem post_process_raises_only_on_options:
  "(\<exists>out. post_process_ascii_output cfg raw_output y_label x_label = Some out) =
   options_readable cfg"
  using post_process_lines_total [of cfg "py_split CHR 0x0A raw_output" y_label x_label]
  by (auto simp: post_process_ascii_output_def Let_def py_split_not_Nil)

lemmas config_reads =
  get_def get_bool_def default_config_def parser_of_def set_defaults_def
  convert_to_boolean_def boolean_states_def py_lower_def

theorem post_process_raises_only_on_options_witness:
  "options_readable default_config
   \<and> (\<exists>out. post_process_ascii_output default_config ''  1 |*A|'' ''Jitter (ms)'' ''Time'' = Some out)"
  using post_process_raises_only_on_options [of default_config "''  1 |*A|''" "''Jitter (ms)''" "''Time''"]
  by (simp add: options_readable_def overlay_options_readable_def config_reads)

text \<open>
  A configuration whose \<^verbatim>\<open>show_axis_info_below\<close> is not a boolean word: the read at
  line 485 raises, and so does the function.
\<close>

definition maybe_config :: config where
  "maybe_config = parser_of ((''show_axis_info_below'', ''maybe'') # set_defaults)"

theorem post_process_raises_on_bad_flag:
  "get_bool maybe_config ''show_axis_info_below'' False = None
   \<and> post_process_ascii_output maybe_config ''abc'' ''Jitter (ms)'' ''Time'' = None"
  by code_simp

section \<open>Glyph substitution and decoration stripping\<close>

definition decoration_chars :: "char set" where
  "decoration_chars = {CHR ''-'', CHR ''_'', CHR ''+''}"

definition blank_decoration :: "char \<Rightarrow> char" where
  "blank_decoration c = (if c \<in> decoration_chars then CHR '' '' else c)"

lemma py_replace_absent: "old \<notin> set s \<Longrightarrow> py_replace old new s = s"
  by (induction s) (auto simp: py_replace_def)

lemma py_replace_concat:
  "py_replace old new (concat xs) = concat (map (py_replace old new) xs)"
  by (induction xs) (auto simp: py_replace_def)

lemma py_replace_char:
  "py_replace old [new] s = map (\<lambda>c. if c = old then new else c) s"
  by (induction s) (simp_all add: py_replace_def)

lemma strip_decorations_map: "strip_decorations line = map blank_decoration line"
proof -
  let ?l = "py_replace CHR ''_'' '' '' (py_replace CHR ''-'' '' '' line)"
  have "strip_decorations line = py_replace CHR ''+'' '' '' ?l"
    by (simp add: strip_decorations_def Let_def py_replace_absent)
  also have "\<dots> = map blank_decoration line"
    by (simp add: py_replace_char blank_decoration_def decoration_chars_def)
  finally show ?thesis .
qed

definition written_for :: "string \<Rightarrow> string \<Rightarrow> char \<Rightarrow> string" where
  "written_for p s c = replace_glyphs p s [c]"

lemma replace_glyphs_alt:
  "replace_glyphs p s line =
     (let l1 = (if p \<noteq> ''*'' then py_replace CHR ''*'' p line else line)
      in if s \<noteq> ''A'' then py_replace CHR ''A'' s l1 else l1)"
  by (auto simp: replace_glyphs_def Let_def py_replace_absent)

lemma py_replace_append:
  "py_replace old new (a @ b) = py_replace old new a @ py_replace old new b"
  by (simp add: py_replace_def)

lemma replace_glyphs_append:
  "replace_glyphs p s (a @ b) = replace_glyphs p s a @ replace_glyphs p s b"
  by (simp add: replace_glyphs_alt Let_def py_replace_append)

lemma replace_glyphs_Nil: "replace_glyphs p s [] = []"
  by (simp add: replace_glyphs_alt Let_def py_replace_def)

lemma replace_glyphs_concat:
  "replace_glyphs p s line = concat (map (written_for p s) line)"
proof (induction line)
  case Nil
  show ?case by (simp add: replace_glyphs_Nil)
next
  case (Cons c line)
  have "replace_glyphs p s (c # line) = replace_glyphs p s [c] @ replace_glyphs p s line"
    using replace_glyphs_append [of p s "[c]" line] by simp
  then show ?case by (simp add: Cons.IH written_for_def)
qed

lemma written_for_other:
  "c \<noteq> CHR ''*'' \<Longrightarrow> c \<noteq> CHR ''A'' \<Longrightarrow> written_for p s c = [c]"
  by (simp add: written_for_def replace_glyphs_def py_replace_def)

lemma written_for_chars:
  "set (written_for p s c) \<subseteq> insert c (set p \<union> set s)"
proof -
  have r: "set (py_replace old new t) \<subseteq> set t \<union> set new" for old new and t :: string
    by (induction t) (auto simp: py_replace_def)
  have 1: "set (py_replace CHR ''*'' p [c]) \<subseteq> insert c (set p)"
    using r [of "CHR ''*''" p "[c]"] by auto
  have 2: "set (py_replace CHR ''A'' s t) \<subseteq> set t \<union> set s" for t
    by (rule r)
  show ?thesis
    unfolding written_for_def replace_glyphs_alt Let_def
    using 1 2 [of "[c]"] 2 [of "py_replace CHR ''*'' p [c]"]
    by (cases "p \<noteq> ''*''"; cases "s \<noteq> ''A''") (simp_all only: if_True if_False, auto)
qed

lemma map_blank_id: "set s \<inter> decoration_chars = {} \<Longrightarrow> map blank_decoration s = s"
  by (induction s) (auto simp: blank_decoration_def)

lemma stripped_substitution:
  assumes "set p \<inter> decoration_chars = {}" and "set s \<inter> decoration_chars = {}"
  shows "strip_decorations (replace_glyphs p s line) =
      concat (map (\<lambda>c. if c = CHR ''*'' \<or> c = CHR ''A'' then replace_glyphs p s [c]
                         else [blank_decoration c]) line)"
proof -
  have w: "map blank_decoration (written_for p s c) =
      (if c = CHR ''*'' \<or> c = CHR ''A'' then replace_glyphs p s [c] else [blank_decoration c])" for c
  proof (cases "c = CHR ''*'' \<or> c = CHR ''A''")
    case True
    then have "c \<notin> decoration_chars" by (auto simp: decoration_chars_def)
    with assms written_for_chars [of p s c]
    have "set (written_for p s c) \<inter> decoration_chars = {}" by auto
    from map_blank_id [OF this] True show ?thesis by (simp add: written_for_def)
  next
    case False
    then show ?thesis by (simp add: written_for_other)
  qed
  have "map blank_decoration (concat (map (written_for p s) line)) =
      concat (map (\<lambda>c. map blank_decoration (written_for p s c)) line)"
    by (induction line) simp_all
  then show ?thesis
    unfolding strip_decorations_map replace_glyphs_concat [of p s line] w .
qed

text \<open>
  C5 (amended). In every row that is not protected, and for every pair of configured
  glyphs, the row the pass writes is the stripping of the substituted row: substitution
  runs first. When neither configured glyph holds a dash, an underscore or a plus sign,
  stripping leaves what substitution wrote as it is: every star and every letter A is
  replaced by exactly the text substitution writes for it, and every other character is
  only blanked when it is a decoration.
\<close>

theorem glyphs_survive_stripping:
  assumes "\<not> is_protected line"
  shows "glyph_row primary_char secondary_char line =
       strip_decorations (replace_glyphs primary_char secondary_char line)
    \<and> (set primary_char \<inter> decoration_chars = {} \<and> set secondary_char \<inter> decoration_chars = {}
       \<longrightarrow> glyph_row primary_char secondary_char line =
            concat (map (\<lambda>c. if c = CHR ''*'' \<or> c = CHR ''A''
                              then replace_glyphs primary_char secondary_char [c]
                              else [blank_decoration c]) line))"
  using assms stripped_substitution [of primary_char secondary_char line]
  by (simp add: glyph_row_def)

lemma not_protected_sample: "\<not> is_protected ''  |  *A-+_ |''"
  by (simp add: is_protected_def protected_phrases_def)

theorem glyphs_survive_stripping_witness:
  "\<not> is_protected ''  |  *A-+_ |''
   \<and> set ''#'' \<inter> decoration_chars = {} \<and> set ''o'' \<inter> decoration_chars = {}
   \<and> glyph_row ''#'' ''o'' ''  |  *A-+_ |'' = ''  |  #o    |''
   \<and> strip_decorations (replace_glyphs ''#'' ''o'' ''  |  *A-+_ |'') = ''  |  #o    |''"
proof -
  have a: "set ''#'' \<inter> decoration_chars = {}" and b: "set ''o'' \<inter> decoration_chars = {}"
    by (simp_all add: decoration_chars_def)
  from glyphs_survive_stripping [OF not_protected_sample, of "''#''" "''o''"] a b
  have row: "glyph_row ''#'' ''o'' ''  |  *A-+_ |'' =
        strip_decorations (replace_glyphs ''#'' ''o'' ''  |  *A-+_ |'')"
    and "glyph_row ''#'' ''o'' ''  |  *A-+_ |'' =
      concat (map (\<lambda>c. if c = CHR ''*'' \<or> c = CHR ''A'' then replace_glyphs ''#'' ''o'' [c]
                         else [blank_decoration c]) ''  |  *A-+_ |'')" by blast+
  moreover have "concat (map (\<lambda>c. if c = CHR ''*'' \<or> c = CHR ''A'' then replace_glyphs ''#'' ''o'' [c]
                         else [blank_decoration c]) ''  |  *A-+_ |'') = ''  |  #o    |''"
    by (simp add: replace_glyphs_def py_replace_def blank_decoration_def decoration_chars_def)
  ultimately show ?thesis using a b not_protected_sample by simp
qed

text \<open>
  With a plus sign as primary glyph, the plus sign substitution writes for a star is
  blanked by the stripping step of the same pass.
\<close>

theorem substituted_glyph_stripped:
  "\<not> is_protected ''*''
   \<and> replace_glyphs ''+'' ''A'' ''*'' = ''+''
   \<and> strip_decorations (replace_glyphs ''+'' ''A'' ''*'') = '' ''
   \<and> glyph_row ''+'' ''A'' ''*'' = '' ''"
  by (simp add: is_protected_def protected_phrases_def replace_glyphs_def strip_decorations_def
      glyph_row_def py_replace_def)

section \<open>The vertical label overlay\<close>

text \<open>
  The rows of \<^verbatim>\<open>enumerate\<close> counted from an offset, to follow the loop of lines 473 to
  477 row by row.
\<close>

definition indexed_from :: "nat \<Rightarrow> 'a list \<Rightarrow> (int \<times> 'a) list" where
  "indexed_from k cs = map (\<lambda>(i, c). (int i, c)) (List.enumerate k cs)"

lemma indexed_from_simps:
  "indexed_from k [] = []"
  "indexed_from k (c # cs) = (int k, c) # indexed_from (Suc k) cs"
  by (simp_all add: indexed_from_def)

lemma py_enumerate_indexed: "py_enumerate cs = indexed_from 0 cs"
  by (simp add: py_enumerate_def indexed_from_def enumerate_eq_zip zip_map1)

lemma overlay_label_nth:
  assumes "overlay_label ms (indexed_from k cs) lines = Some out"
    and "j < length lines"
  shows "out ! j =
     (if ms + int k \<le> int j \<and> int j < ms + int k + int (length cs)
      then cs ! nat (int j - ms - int k) # CHR '' '' # lines ! j else lines ! j)"
  using assms
proof (induction cs arbitrary: k lines)
  case Nil
  then show ?case by (auto simp: indexed_from_simps)
next
  case (Cons c cs)
  note idx = indexed_from_simps(2)
  show ?case
  proof (cases "0 \<le> ms + int k \<and> ms + int k < int (length lines)")
    case True
    let ?new = "lines[nat (ms + int k) := c # CHR '' '' # lines ! nat (ms + int k)]"
    from Cons.prems(1) True
    have run: "overlay_label ms (indexed_from (Suc k) cs) ?new = Some out"
      by (simp add: idx Let_def py_get_in_range py_set_in_range)
    from Cons.prems(2) have j: "j < length ?new" by simp
    note ih = Cons.IH [OF run j]
    show ?thesis
    proof (cases "j = nat (ms + int k)")
      case same: True
      with True have "int j = ms + int k" by simp
      with ih same Cons.prems(2) show ?thesis by simp
    next
      case other: False
      with True have ne: "int j \<noteq> ms + int k" by auto
      have "(c # cs) ! nat (int j - ms - int k) = cs ! nat (int j - ms - int (Suc k))"
        if "ms + int (Suc k) \<le> int j"
      proof -
        from that have "nat (int j - ms - int k) = Suc (nat (int j - ms - int (Suc k)))" by simp
        then show ?thesis by simp
      qed
      with ih other ne show ?thesis by auto
    qed
  next
    case False
    with Cons.prems(1)
    have run: "overlay_label ms (indexed_from (Suc k) cs) lines = Some out"
      by (auto simp: idx Let_def)
    note ih = Cons.IH [OF run Cons.prems(2)]
    from False Cons.prems(2) have ne: "int j \<noteq> ms + int k" by auto
    have "(c # cs) ! nat (int j - ms - int k) = cs ! nat (int j - ms - int (Suc k))"
      if "ms + int (Suc k) \<le> int j"
    proof -
      from that have "nat (int j - ms - int k) = Suc (nat (int j - ms - int (Suc k)))" by simp
      then show ?thesis by simp
    qed
    with ih ne show ?thesis by auto
  qed
qed

lemma pad_box_rows_nth:
  assumes "pad_box_rows gs ge ms n idx lines = Some out"
    and "distinct idx" and "\<forall>i \<in> set idx. 0 \<le> i \<and> i < int (length lines)"
    and "j < length lines"
  shows "out ! j =
     (if int j \<in> set idx \<and> gs \<le> int j \<and> int j \<le> ge \<and> \<not> (ms \<le> int j \<and> int j < ms + n)
      then ''  '' @ lines ! j else lines ! j)"
  using assms
proof (induction idx arbitrary: lines)
  case Nil
  then show ?case by simp
next
  case (Cons i rest)
  from Cons.prems(3) have i: "0 \<le> i" "i < int (length lines)" by auto
  show ?case
  proof (cases "gs \<le> i \<and> i \<le> ge \<and> \<not> (ms \<le> i \<and> i < ms + n)")
    case True
    let ?new = "lines[nat i := ''  '' @ lines ! nat i]"
    from Cons.prems(1) True i
    have run: "pad_box_rows gs ge ms n rest ?new = Some out"
      by (simp add: py_get_in_range py_set_in_range)
    have "out ! j =
      (if int j \<in> set rest \<and> gs \<le> int j \<and> int j \<le> ge \<and> \<not> (ms \<le> int j \<and> int j < ms + n)
       then ''  '' @ ?new ! j else ?new ! j)"
      using Cons.IH [OF run] Cons.prems by simp
    moreover have "int j = i \<longleftrightarrow> j = nat i" using i by auto
    ultimately show ?thesis using True Cons.prems(2,4) by auto
  next
    case False
    with Cons.prems(1) have run: "pad_box_rows gs ge ms n rest lines = Some out"
      by auto
    have "out ! j =
      (if int j \<in> set rest \<and> gs \<le> int j \<and> int j \<le> ge \<and> \<not> (ms \<le> int j \<and> int j < ms + n)
       then ''  '' @ lines ! j else lines ! j)"
      using Cons.IH [OF run] Cons.prems by simp
    with False show ?thesis by auto
  qed
qed


definition overlay_enabled :: "config \<Rightarrow> bool" where
  "overlay_enabled cfg =
     (get_bool cfg ''show_ylabel_inline'' True = Some True
      \<and> get cfg ''ylabel_rotation'' ''vertical'' = Some ''vertical''
      \<and> get cfg ''ylabel_position'' ''left'' = Some ''left'')"

definition y_chars_of :: "string \<Rightarrow> string" where
  "y_chars_of y_label = py_replace CHR '' '' ''_'' y_label"

definition middle_start_of :: "int \<Rightarrow> int \<Rightarrow> string \<Rightarrow> int" where
  "middle_start_of graph_start graph_end y_label =
     graph_start + (graph_end - graph_start) div 2 - int (length (y_chars_of y_label)) div 2"

definition overlay_row :: "int \<Rightarrow> int \<Rightarrow> string \<Rightarrow> nat \<Rightarrow> string \<Rightarrow> string" where
  "overlay_row graph_start graph_end y_label j line =
     (let ms = middle_start_of graph_start graph_end y_label; cs = y_chars_of y_label
      in if ms \<le> int j \<and> int j < ms + int (length cs) then cs ! nat (int j - ms) # CHR '' '' # line
         else if graph_start \<le> int j \<and> int j \<le> graph_end then ''  '' @ line
         else line)"

lemma length_y_chars_of: "length (y_chars_of y_label) = length y_label"
  by (simp add: y_chars_of_def py_replace_char)


lemma overlay_pass_nth:
  assumes "overlay_enabled cfg"
  shows "\<exists>out. overlay_pass cfg gs ge y_label lines = Some out \<and> length out = length lines
     \<and> (\<forall>j < length lines. out ! j = overlay_row gs ge y_label j (lines ! j))"
proof -
  define cs where "cs = y_chars_of y_label"
  define ms where "ms = middle_start_of gs ge y_label"
  obtain l1 where l1: "overlay_label ms (py_enumerate cs) lines = Some l1"
    and len1: "length l1 = length lines" using overlay_label_total by blast
  let ?idx = "py_range 0 (int (length l1))"
  have inr: "\<forall>i \<in> set ?idx. 0 \<le> i \<and> i < int (length l1)"
    by (auto simp: py_range_set)
  from pad_box_rows_total [OF inr] obtain l2
    where l2: "pad_box_rows gs ge ms (int (length cs)) ?idx l1 = Some l2"
      and len2: "length l2 = length l1" by blast
  have run: "overlay_pass cfg gs ge y_label lines = Some l2"
    using assms l1 l2
    by (simp add: overlay_pass_def overlay_enabled_def Let_def cs_def ms_def y_chars_of_def
        middle_start_of_def)
  have "l2 ! j = overlay_row gs ge y_label j (lines ! j)" if j: "j < length lines" for j
  proof -
    from l1 have l1': "overlay_label ms (indexed_from 0 cs) lines = Some l1"
      by (simp add: py_enumerate_indexed)
    have a: "l1 ! j = (if ms \<le> int j \<and> int j < ms + int (length cs)
        then cs ! nat (int j - ms) # CHR '' '' # lines ! j else lines ! j)"
      using overlay_label_nth [OF l1' j] by simp
    have d: "distinct ?idx" by (simp add: py_range_def)
    have jin: "int j \<in> set ?idx" using j len1 by (simp add: py_range_set)
    have b: "l2 ! j = (if gs \<le> int j \<and> int j \<le> ge \<and> \<not> (ms \<le> int j \<and> int j < ms + int (length cs))
        then ''  '' @ l1 ! j else l1 ! j)"
      using pad_box_rows_nth [OF l2 d inr, of j] j len1 jin by simp
    show ?thesis
      unfolding b a overlay_row_def Let_def cs_def [symmetric] ms_def [symmetric] by simp
  qed
  with run len1 len2 show ?thesis by simp
qed

text \<open>
  The rows the label is assigned to that exist in a grid of \<open>rows\<close> rows, the first
  character of each of them read top to bottom, and the conversion of the separators
  back to spaces.
\<close>

definition assigned_rows :: "int \<Rightarrow> nat \<Rightarrow> nat \<Rightarrow> int list" where
  "assigned_rows ms n rows =
     filter (\<lambda>i. 0 \<le> i \<and> i < int rows) (py_range ms (ms + int n))"

definition read_label :: "int \<Rightarrow> nat \<Rightarrow> string list \<Rightarrow> string" where
  "read_label ms n grid = map (\<lambda>i. hd (grid ! nat i)) (assigned_rows ms n (length grid))"

definition unseparate :: "string \<Rightarrow> string" where
  "unseparate s = map (\<lambda>c. if c = CHR ''_'' then CHR '' '' else c) s"

lemma unseparate_y_chars:
  "CHR ''_'' \<notin> set y_label \<Longrightarrow> unseparate (y_chars_of y_label) = y_label"
  by (induction y_label) (auto simp: unseparate_def y_chars_of_def py_replace_char)

lemma slice_all:
  "map (\<lambda>i. cs ! nat (i - ms)) (py_range ms (ms + int (length cs))) = cs"
proof (rule nth_equalityI)
  show "length (map (\<lambda>i. cs ! nat (i - ms)) (py_range ms (ms + int (length cs)))) = length cs"
    by (simp add: py_range_def)
next
  fix k assume "k < length (map (\<lambda>i. cs ! nat (i - ms)) (py_range ms (ms + int (length cs))))"
  then have k: "k < length cs" by (simp add: py_range_def)
  then have "py_range ms (ms + int (length cs)) ! k = ms + int k"
    by (simp add: py_range_def)
  with k show "map (\<lambda>i. cs ! nat (i - ms)) (py_range ms (ms + int (length cs))) ! k = cs ! k"
    by (simp add: py_range_def)
qed

lemma assigned_rows_all:
  "0 \<le> ms \<Longrightarrow> ms + int n \<le> int rows \<Longrightarrow> assigned_rows ms n rows = py_range ms (ms + int n)"
  by (auto simp: assigned_rows_def py_range_set intro!: filter_True)

lemma overlay_rows_read:
  assumes "overlay_enabled cfg"
  shows "\<exists>out. overlay_pass cfg gs ge y_label lines = Some out
     \<and> read_label (middle_start_of gs ge y_label) (length y_label) out =
         map (\<lambda>i. y_chars_of y_label ! nat (i - middle_start_of gs ge y_label))
           (assigned_rows (middle_start_of gs ge y_label) (length y_label) (length lines))
     \<and> (CHR ''_'' \<notin> set y_label \<and> 0 \<le> middle_start_of gs ge y_label
          \<and> middle_start_of gs ge y_label + int (length y_label) \<le> int (length lines)
        \<longrightarrow> unseparate (read_label (middle_start_of gs ge y_label) (length y_label) out) = y_label)"
proof -
  define ms where "ms = middle_start_of gs ge y_label"
  define cs where "cs = y_chars_of y_label"
  have n: "length cs = length y_label" by (simp add: cs_def length_y_chars_of)
  from overlay_pass_nth [OF assms, of gs ge y_label lines] obtain out
    where run: "overlay_pass cfg gs ge y_label lines = Some out"
      and len: "length out = length lines"
      and rows: "\<forall>j < length lines. out ! j = overlay_row gs ge y_label j (lines ! j)" by blast
  have hd_row: "hd (out ! nat i) = cs ! nat (i - ms)"
    if "i \<in> set (assigned_rows ms (length y_label) (length out))" for i
  proof -
    from that have i: "0 \<le> i" "i < int (length lines)" "ms \<le> i" "i < ms + int (length y_label)"
      by (auto simp: assigned_rows_def py_range_set len)
    then have "out ! nat i = overlay_row gs ge y_label (nat i) (lines ! nat i)"
      using rows by simp
    with i show ?thesis
      by (simp add: overlay_row_def Let_def ms_def [symmetric] cs_def [symmetric] n)
  qed
  have read: "read_label ms (length y_label) out =
      map (\<lambda>i. cs ! nat (i - ms)) (assigned_rows ms (length y_label) (length lines))"
    unfolding read_label_def using hd_row by (simp add: len cong: map_cong)
  have rebuilt: "unseparate (read_label ms (length y_label) out) = y_label"
    if "CHR ''_'' \<notin> set y_label" "0 \<le> ms" "ms + int (length y_label) \<le> int (length lines)"
  proof -
    from that(2,3) have "assigned_rows ms (length y_label) (length lines) =
        py_range ms (ms + int (length cs))"
      by (simp add: assigned_rows_all n)
    with read have "read_label ms (length y_label) out = cs"
      by (simp add: slice_all)
    with that(1) show ?thesis by (simp add: cs_def unseparate_y_chars)
  qed
  from run read rebuilt show ?thesis
    unfolding ms_def cs_def by blast
qed


text \<open>
  What a reader gets back from the grid the overlay pass returns: the first characters
  of the assigned rows, top to bottom, with the underscores turned into spaces again.
\<close>

definition read_back :: "config \<Rightarrow> int \<Rightarrow> int \<Rightarrow> string \<Rightarrow> string list \<Rightarrow> string option" where
  "read_back cfg graph_start graph_end y_label lines =
     map_option (unseparate \<circ> read_label (middle_start_of graph_start graph_end y_label) (length y_label))
       (overlay_pass cfg graph_start graph_end y_label lines)"

definition label_slice :: "int \<Rightarrow> int \<Rightarrow> string \<Rightarrow> nat \<Rightarrow> string" where
  "label_slice graph_start graph_end y_label rows =
     map (\<lambda>i. y_label ! nat (i - middle_start_of graph_start graph_end y_label))
       (assigned_rows (middle_start_of graph_start graph_end y_label) (length y_label) rows)"

text \<open>
  C3 (amended). With inline labelling enabled, vertical and on the left, the overlay pass
  returns for every grid and every label, and the characters overlaid on the assigned
  rows that exist in the grid, read top to bottom, are the characters the label has at
  the positions of those rows, an underscore for every space. When every assigned row
  exists and the label holds no underscore of its own, converting the underscores back
  to spaces gives the label.
\<close>

theorem overlay_reads_back:
  assumes "overlay_enabled cfg"
  shows "(\<exists>out. overlay_pass cfg gs ge y_label lines = Some out
            \<and> read_label (middle_start_of gs ge y_label) (length y_label) out =
                label_slice gs ge (y_chars_of y_label) (length lines))
    \<and> (CHR ''_'' \<notin> set y_label \<and> 0 \<le> middle_start_of gs ge y_label
          \<and> middle_start_of gs ge y_label + int (length y_label) \<le> int (length lines)
        \<longrightarrow> read_back cfg gs ge y_label lines = Some y_label)"
proof -
  have ms: "middle_start_of gs ge (y_chars_of y_label) = middle_start_of gs ge y_label"
    by (simp add: middle_start_of_def length_y_chars_of)
  from overlay_rows_read [OF assms, of gs ge y_label lines] show ?thesis
    by (auto simp: read_back_def label_slice_def ms length_y_chars_of)
qed

definition sample_chart :: "string list" where
  "sample_chart =
     ['''',
      ''   Network Throughput: Sender Bytes Over Time'',
      ''  1e+07 +'' @ replicate 50 CHR ''-'' @ ''+'',
      ''        |'' @ replicate 50 CHR '' '' @ ''|'',
      ''        |'' @ replicate 50 CHR '' '' @ ''|'',
      ''      0 +'' @ replicate 50 CHR ''-'' @ ''+'',
      ''        0        5       10'',
      '''']"

lemma sample_chart_area: "find_graph_area 0 sample_chart (- 1, - 1) = (3, 4)"
  by code_simp

theorem overlay_reads_back_witness:
  "overlay_enabled default_config
   \<and> CHR ''_'' \<notin> set ''Loss %''
   \<and> 0 \<le> middle_start_of 3 4 ''Loss %''
   \<and> middle_start_of 3 4 ''Loss %'' + int (length ''Loss %'') \<le> int (length sample_chart)
   \<and> read_back default_config 3 4 ''Loss %'' sample_chart = Some ''Loss %''"
proof -
  have a: "overlay_enabled default_config" by code_simp
  have b: "CHR ''_'' \<notin> set ''Loss %''" by simp
  have c: "0 \<le> middle_start_of 3 4 ''Loss %''"
    "middle_start_of 3 4 ''Loss %'' + int (length ''Loss %'') \<le> int (length sample_chart)"
    by code_simp+
  from overlay_reads_back [OF a, of 3 4 "''Loss %''" sample_chart] a b c show ?thesis by blast
qed

text \<open>
  On the same grid the label of the sender chart has seventeen characters and starts
  five rows above the grid: the eight rows that exist hold its middle part only. A label
  with an underscore of its own comes back with a space in its place.
\<close>

theorem overlay_label_truncated:
  "overlay_enabled default_config
   \<and> find_graph_area 0 sample_chart (- 1, - 1) = (3, 4)
   \<and> read_back default_config 3 4 ''Bytes Transmitted'' sample_chart = Some '' Transmi''
   \<and> read_back default_config 3 4 ''a_b'' sample_chart = Some ''a b''"
  by code_simp

section \<open>Detection that finds nothing\<close>

text \<open>
  A chart narrower than 51 columns has no row that counts as a row of the box, so the
  scan of lines 337 to 345 leaves \<open>graph_start\<close> and \<open>graph_end\<close> at -1. The
  border pass tests for that at line 371 and is skipped. The overlay pass has no such
  test: it centres the label on row -1.
\<close>

definition narrow_chart :: string where
  "narrow_chart = py_join [CHR 0x0A] [''  1 +-----+'', ''    |  *  |'', ''  0 +-----+'']"

text \<open>
  C6. On the narrow chart the box detection finds nothing and the border pass is
  skipped, yet the overlay pass, which places the label by the detected box, is not:
  with the default configuration it writes the characters 6, 7 and 8 of the label
  \<^verbatim>\<open>Jitter_(ms)\<close> in front of the three rows. The function returns, without raising.
\<close>

theorem overlay_runs_without_box:
  "find_graph_area 0 (py_split CHR 0x0A narrow_chart) (- 1, - 1) = (- 1, - 1)
   \<and> reconstruct_borders (- 1) (- 1) (glyph_pass ''*'' ''A'' (py_split CHR 0x0A narrow_chart)) =
       Some [''  1        '', ''    |  *  |'', ''  0        '']
   \<and> post_process_ascii_output default_config narrow_chart ''Jitter (ms)'' ''Time'' =
       Some (py_join [CHR 0x0A] [''_   1        '', ''(     |  *  |'', ''m   0        ''])"
  by code_simp

section \<open>Rows with a protected phrase\<close>

text \<open>
  What the border pass leaves alone. The two rows it rewrites are rows the tick scan
  has accepted, so a row that does not look like a tick label is not among them.
\<close>

definition tick_or_none :: "string list \<Rightarrow> int \<Rightarrow> bool" where
  "tick_or_none lines i =
     (i = - 1 \<or> (0 \<le> i \<and> i < int (length lines)
        \<and> looks_like_tick (py_strip (lines ! nat i)) = Some True))"

lemma find_tick_rows_ticks:
  assumes "\<forall>i \<in> set idx. 0 \<le> i \<and> i < int (length lines)"
    and "find_tick_rows lines idx (f0, l0) = Some (f, l)"
    and "tick_or_none lines f0" and "tick_or_none lines l0"
  shows "tick_or_none lines f \<and> tick_or_none lines l"
  using assms
proof (induction idx arbitrary: f0 l0)
  case Nil
  then show ?case by simp
next
  case (Cons i rest)
  from Cons.prems(1) have i: "0 \<le> i" "i < int (length lines)" by auto
  obtain t where t: "looks_like_tick (py_strip (lines ! nat i)) = Some t"
    using looks_like_tick_total by blast
  let ?f = "if t then (if f0 = - 1 then i else f0) else f0"
  let ?l = "if t then i else l0"
  have step: "find_tick_rows lines (i # rest) (f0, l0) = find_tick_rows lines rest (?f, ?l)"
    using i t by (simp add: py_get_in_range)
  have inv: "tick_or_none lines ?f" "tick_or_none lines ?l"
    using Cons.prems(3,4) i t by (auto simp: tick_or_none_def)
  have rest: "\<forall>i \<in> set rest. 0 \<le> i \<and> i < int (length lines)" using Cons.prems(1) by simp
  from Cons.prems(2) have "find_tick_rows lines rest (?f, ?l) = Some (f, l)"
    unfolding step .
  from Cons.IH [OF rest this inv] show ?case .
qed

lemma rewrite_tick_row_nth:
  assumes "rewrite_tick_row lines y tps bl = Some out" and "0 \<le> y" and "j \<noteq> nat y"
  shows "out ! j = lines ! j" and "length out = length lines"
proof -
  from rewrite_tick_row_total [OF assms(2), of lines tps bl] assms(1)
  show "length out = length lines" by auto
  show "out ! j = lines ! j"
  proof (cases "y < int (length lines)")
    case False
    with assms(1) show ?thesis by (simp add: rewrite_tick_row_def)
  next
    case True
    show ?thesis
    proof (cases "re_match label_re (lines ! nat y)")
      case None
      with True assms show ?thesis by (simp add: rewrite_tick_row_def py_get_in_range)
    next
      case (Some groups)
      from re_match_length(1) [OF Some] have "length groups = 2" by (simp add: label_re_def)
      then have "py_get groups 1 = Some (groups ! 1)" by (simp add: py_get_in_range)
      with True assms Some show ?thesis
        by (auto simp: rewrite_tick_row_def py_get_in_range py_set_in_range)
    qed
  qed
qed

lemma reconstruct_borders_frame:
  assumes "reconstruct_borders gs ge lines = Some out"
    and "(gs = - 1 \<and> ge = - 1) \<or> (0 \<le> gs \<and> gs \<le> ge \<and> ge < int (length lines))"
    and "looks_like_tick (py_strip (lines ! j)) \<noteq> Some True"
  shows "out ! j = lines ! j"
proof (cases "gs \<noteq> - 1 \<and> ge \<noteq> - 1")
  case False
  with assms(1) show ?thesis by (auto simp: reconstruct_borders_def)
next
  case True
  with assms(2) have "\<forall>i \<in> set (py_range gs (ge + 1)). 0 \<le> i \<and> i < int (length lines)"
    by (auto simp: py_range_set)
  from find_typical_pipes_total [OF this] obtain tps tpe
    where tp: "find_typical_pipes lines (py_range gs (ge + 1)) = Some (tps, tpe)" by force
  have idx: "\<forall>i \<in> set (py_range 0 (int (length lines))). 0 \<le> i \<and> i < int (length lines)"
    by (auto simp: py_range_set)
  from find_tick_rows_total [OF idx refl, of "- 1" "- 1"] obtain f l
    where tk: "find_tick_rows lines (py_range 0 (int (length lines))) (- 1, - 1) = Some (f, l)"
    by auto
  from find_tick_rows_ticks [OF idx tk]
  have fl: "tick_or_none lines f" "tick_or_none lines l" by (simp_all add: tick_or_none_def)
  show ?thesis
  proof (cases "f \<noteq> - 1 \<and> l \<noteq> - 1 \<and> tps \<noteq> - 1")
    case False
    with True tp tk assms(1) show ?thesis by (auto simp: reconstruct_borders_def)
  next
    case rewrite: True
    define bl where "bl = (if tps \<noteq> - 1 \<and> tpe \<noteq> - 1 then tpe - tps - 1 else 60)"
    from rewrite fl have f: "0 \<le> f" "looks_like_tick (py_strip (lines ! nat f)) = Some True"
      and l: "0 \<le> l" "looks_like_tick (py_strip (lines ! nat l)) = Some True"
      by (auto simp: tick_or_none_def)
    with assms(3) have ne: "j \<noteq> nat f" "j \<noteq> nat l" by auto
    from rewrite_tick_row_total [OF f(1)] obtain l1
      where l1: "rewrite_tick_row lines f tps bl = Some l1" by blast
    have "reconstruct_borders gs ge lines = rewrite_tick_row l1 l tps bl"
      using True tp tk rewrite l1 by (simp add: reconstruct_borders_def bl_def)
    with assms(1) have l2: "rewrite_tick_row l1 l tps bl = Some out" by simp
    from rewrite_tick_row_nth(1) [OF l2 l(1) ne(2)] rewrite_tick_row_nth(1) [OF l1 f(1) ne(1)]
    show ?thesis by simp
  qed
qed

text \<open>
  A row with a protected phrase is not blank, so the axis information pass does not pop
  it: the rows it pops are a blank suffix of the grid.
\<close>

lemma py_strip_empty: "py_strip s = [] \<Longrightarrow> \<forall>c \<in> set s. py_isspace c"
proof -
  assume "py_strip s = []"
  then have all: "\<forall>c \<in> set (dropWhile py_isspace s). py_isspace c"
    by (simp add: py_strip_def dropWhile_eq_Nil_conv)
  have "dropWhile py_isspace s = []"
  proof (cases "dropWhile py_isspace s")
    case Nil
    then show ?thesis .
  next
    case (Cons x xs)
    then have "\<not> py_isspace x" using hd_dropWhile [of py_isspace s] by simp
    with all Cons show ?thesis by simp
  qed
  then show ?thesis by (simp add: dropWhile_eq_Nil_conv)
qed

lemma py_in_chars: "py_in sub s \<Longrightarrow> set sub \<subseteq> set s"
proof (induction s)
  case Nil
  then show ?case by simp
next
  case (Cons a s)
  from Cons.prems have "prefix sub (a # s) \<or> py_in sub s" by simp
  then show ?case
  proof
    assume "prefix sub (a # s)"
    then show ?thesis by (rule set_mono_prefix)
  next
    assume "py_in sub s"
    with Cons.IH show ?thesis by auto
  qed
qed

lemma py_in_head: "py_in (c # rest) s \<Longrightarrow> c \<in> set s"
  using py_in_chars [of "c # rest" s] by simp

lemma protected_not_blank: "is_protected line \<Longrightarrow> py_strip line \<noteq> []"
proof
  assume p: "is_protected line" and "py_strip line = []"
  then have sp: "\<forall>c \<in> set line. py_isspace c" by (simp add: py_strip_empty)
  from p have "py_in ''Network'' line \<or> py_in ''Measurement Data'' line
      \<or> py_in ''X Axis:'' line \<or> py_in ''Y Axis:'' line"
    by (simp add: is_protected_def protected_phrases_def)
  then have "CHR ''N'' \<in> set line \<or> CHR ''M'' \<in> set line \<or> CHR ''X'' \<in> set line
      \<or> CHR ''Y'' \<in> set line"
    using py_in_head by blast
  moreover have "\<not> py_isspace CHR ''N''" "\<not> py_isspace CHR ''M''" "\<not> py_isspace CHR ''X''"
    "\<not> py_isspace CHR ''Y''" by (simp_all add: py_isspace_def)
  ultimately show False using sp by blast
qed

lemma pop_blank_rows_prefix:
  "pop_blank_rows lines = Some kept \<Longrightarrow>
   \<exists>dropped. lines = kept @ dropped \<and> (\<forall>r \<in> set dropped. py_strip r = [])"
proof (induction lines arbitrary: kept rule: pop_blank_rows.induct)
  case (1 lines)
  show ?case
  proof (cases "lines = []")
    case True
    with "1.prems" show ?thesis by simp
  next
    case False
    note last = py_get_last [OF False]
    show ?thesis
    proof (cases "py_strip (last lines) = []")
      case blank: True
      from "1.prems" False last blank have "pop_blank_rows (butlast lines) = Some kept"
        by (subst (asm) pop_blank_rows.simps) simp
      from "1.IH" [OF False last blank this] obtain dropped
        where d: "butlast lines = kept @ dropped" "\<forall>r \<in> set dropped. py_strip r = []" by blast
      from False have "lines = butlast lines @ [last lines]" by simp
      with d(1) have "lines = kept @ (dropped @ [last lines])" by simp
      with d(2) blank show ?thesis by (intro exI [of _ "dropped @ [last lines]"]) auto
    next
      case nonblank: False
      from "1.prems" False last nonblank have "kept = lines"
        by (subst (asm) pop_blank_rows.simps) simp
      then show ?thesis by simp
    qed
  qed
qed

lemma axis_info_pass_frame:
  assumes "axis_info_pass cfg x_label y_label lines = Some out"
    and "j < length lines" and "py_strip (lines ! j) \<noteq> []"
  shows "j < length out \<and> out ! j = lines ! j"
proof (cases "get_bool cfg ''show_axis_info_below'' False")
  case None
  with assms(1) show ?thesis by (simp add: axis_info_pass_def)
next
  case (Some below)
  show ?thesis
  proof (cases below)
    case False
    with Some assms show ?thesis by (simp add: axis_info_pass_def)
  next
    case True
    with Some assms(1) obtain kept where k: "pop_blank_rows lines = Some kept"
      and out: "out = kept @ ['''', ''X Axis: '' @ x_label, ''Y Axis: '' @ y_label]"
      by (auto simp: axis_info_pass_def split: bind_splits)
    from pop_blank_rows_prefix [OF k] obtain dropped
      where d: "lines = kept @ dropped" "\<forall>r \<in> set dropped. py_strip r = []" by blast
    have "j < length kept"
    proof (rule ccontr)
      assume "\<not> j < length kept"
      with d(1) assms(2) have "lines ! j \<in> set dropped"
        by (auto simp: nth_append)
      with d(2) assms(3) show False by auto
    qed
    with out d(1) show ?thesis by (simp add: nth_append)
  qed
qed


lemma overlay_pass_disabled:
  assumes "overlay_pass cfg gs ge y_label lines = Some out" and "\<not> overlay_enabled cfg"
  shows "out = lines"
proof (cases "get_bool cfg ''show_ylabel_inline'' True")
  case None
  with assms(1) show ?thesis by (simp add: overlay_pass_def)
next
  case (Some inline)
  show ?thesis
  proof (cases inline)
    case False
    with Some assms(1) show ?thesis by (simp add: overlay_pass_def)
  next
    case True
    show ?thesis
    proof (cases "get cfg ''ylabel_rotation'' ''vertical''")
      case None
      with Some True assms(1) show ?thesis by (simp add: overlay_pass_def)
    next
      case rot: (Some r)
      show ?thesis
      proof (cases "get cfg ''ylabel_position'' ''left''")
        case None
        with Some True rot assms(1) show ?thesis by (simp add: overlay_pass_def)
      next
        case pos: (Some p)
        with Some True rot assms(2) have "\<not> (r = ''vertical'' \<and> p = ''left'')"
          by (simp add: overlay_enabled_def)
        with Some True rot pos assms(1) show ?thesis by (auto simp: overlay_pass_def)
      qed
    qed
  qed
qed

lemma overlay_pass_frame:
  assumes "overlay_pass cfg gs ge y_label lines = Some out" and "j < length lines"
    and "\<not> (overlay_enabled cfg
           \<and> ((middle_start_of gs ge y_label \<le> int j
                \<and> int j < middle_start_of gs ge y_label + int (length y_label))
               \<or> (gs \<le> int j \<and> int j \<le> ge)))"
  shows "length out = length lines \<and> out ! j = lines ! j"
proof (cases "overlay_enabled cfg")
  case False
  from overlay_pass_disabled [OF assms(1) False] show ?thesis by simp
next
  case True
  from overlay_pass_nth [OF True, of gs ge y_label lines] assms(1,2)
  have "length out = length lines" and "out ! j = overlay_row gs ge y_label j (lines ! j)" by auto
  with True assms(3) show ?thesis
    by (auto simp: overlay_row_def Let_def length_y_chars_of)
qed

text \<open>
  The overlay pass touches a row when it is enabled and the row is one the label is
  assigned to or lies in the extent of the box, which is the one detected in the raw
  rows.
\<close>

definition overlay_touches :: "config \<Rightarrow> string list \<Rightarrow> string \<Rightarrow> nat \<Rightarrow> bool" where
  "overlay_touches cfg lines y_label j =
     (overlay_enabled cfg \<and>
      (case find_graph_area 0 lines (- 1, - 1) of
         (graph_start, graph_end) \<Rightarrow>
           (middle_start_of graph_start graph_end y_label \<le> int j
            \<and> int j < middle_start_of graph_start graph_end y_label + int (length y_label))
           \<or> (graph_start \<le> int j \<and> int j \<le> graph_end)))"

text \<open>
  C4 (amended). A row that holds a protected phrase is left as it is by the glyph
  pass, for every pair of glyphs. When the option reads succeed, the row does not look
  like a tick label and the overlay pass does not touch it, the whole post-processing
  of the grid returns and the row is the same before and after, at the same index.
  \<^const>\<open>post_process_ascii_output\<close> is \<^const>\<open>post_process_lines\<close> between the split and
  the join.
\<close>

theorem protected_rows_kept:
  assumes "is_protected (lines ! j)" and "j < length lines"
  shows "glyph_pass primary_char secondary_char lines ! j = lines ! j
    \<and> (options_readable cfg \<and> looks_like_tick (py_strip (lines ! j)) = Some False
         \<and> \<not> overlay_touches cfg lines y_label j
       \<longrightarrow> (\<exists>out. post_process_lines cfg lines y_label x_label = Some out
              \<and> j < length out \<and> out ! j = lines ! j))"
proof -
  have glyph: "glyph_pass p s lines ! j = lines ! j" for p s
    using assms by (simp add: glyph_pass_def glyph_row_def)
  have "\<exists>out. post_process_lines cfg lines y_label x_label = Some out
        \<and> j < length out \<and> out ! j = lines ! j"
    if ok: "options_readable cfg" and tick: "looks_like_tick (py_strip (lines ! j)) = Some False"
      and far: "\<not> overlay_touches cfg lines y_label j"
  proof -
    from ok obtain p s pt where glyphs: "get cfg ''plot_char_primary'' ''*'' = Some p"
      "get cfg ''plot_char_secondary'' ''A'' = Some s" "get cfg ''plot_char_points'' ''+'' = Some pt"
      by (auto simp: options_readable_def)
    obtain gs ge where area: "find_graph_area 0 lines (- 1, - 1) = (gs, ge)" by force
    let ?l1 = "glyph_pass p s lines"
    have len1: "length ?l1 = length lines" by (simp add: glyph_pass_def)
    from graph_area_bounds [OF area]
    have bounds: "(gs = - 1 \<and> ge = - 1) \<or> (0 \<le> gs \<and> gs \<le> ge \<and> ge < int (length ?l1))"
      by (simp add: len1)
    from reconstruct_borders_total [OF bounds] obtain l2
      where l2: "reconstruct_borders gs ge ?l1 = Some l2" and len2: "length l2 = length ?l1"
      by blast
    from tick have "looks_like_tick (py_strip (?l1 ! j)) \<noteq> Some True" by (simp add: glyph)
    from reconstruct_borders_frame [OF l2 bounds this] have row2: "l2 ! j = lines ! j"
      by (simp add: glyph)
    from ok have "overlay_options_readable cfg" by (simp add: options_readable_def)
    with overlay_pass_total [of cfg gs ge y_label l2] obtain l3
      where l3: "overlay_pass cfg gs ge y_label l2 = Some l3" by auto
    from far area have "\<not> (overlay_enabled cfg
           \<and> ((middle_start_of gs ge y_label \<le> int j
                \<and> int j < middle_start_of gs ge y_label + int (length y_label))
               \<or> (gs \<le> int j \<and> int j \<le> ge)))"
      by (simp add: overlay_touches_def)
    from overlay_pass_frame [OF l3 _ this] assms(2) len1 len2 row2
    have row3: "l3 ! j = lines ! j" and len3: "length l3 = length lines" by simp_all
    from ok have "get_bool cfg ''show_axis_info_below'' False \<noteq> None"
      by (simp add: options_readable_def)
    with axis_info_pass_total [of cfg x_label y_label l3] obtain l4
      where l4: "axis_info_pass cfg x_label y_label l3 = Some l4" by auto
    from protected_not_blank [OF assms(1)] row3 have "py_strip (l3 ! j) \<noteq> []" by simp
    from axis_info_pass_frame [OF l4 _ this] assms(2) len3 row3
    have "j < length l4 \<and> l4 ! j = lines ! j" by simp
    moreover have "post_process_lines cfg lines y_label x_label = Some l4"
      using glyphs area l2 l3 l4 by (simp add: post_process_lines_def)
    ultimately show ?thesis by blast
  qed
  with glyph show ?thesis by blast
qed

text \<open>A chart with a box of twenty rows, on which the label fits.\<close>

definition tall_chart :: "string list" where
  "tall_chart =
     ['''',
      ''   Network Throughput: Sender Bytes Over Time'',
      ''  1e+07 +'' @ replicate 50 CHR ''-'' @ ''+'']
     @ replicate 20 (''        |'' @ replicate 50 CHR '' '' @ ''|'')
     @ [''      0 +'' @ replicate 50 CHR ''-'' @ ''+'',
        ''        0        5       10'',
        '''']"

theorem protected_rows_kept_witness:
  "is_protected (tall_chart ! 1) \<and> 1 < length tall_chart
   \<and> options_readable default_config
   \<and> looks_like_tick (py_strip (tall_chart ! 1)) = Some False
   \<and> \<not> overlay_touches default_config tall_chart ''Bytes Transmitted'' 1
   \<and> (\<exists>out. post_process_lines default_config tall_chart ''Bytes Transmitted'' ''Time (seconds)'' = Some out
          \<and> 1 < length out \<and> out ! 1 = ''   Network Throughput: Sender Bytes Over Time'')"
proof -
  have a: "is_protected (tall_chart ! 1)" "1 < length tall_chart" by code_simp+
  have b: "options_readable default_config"
    "looks_like_tick (py_strip (tall_chart ! 1)) = Some False"
    "\<not> overlay_touches default_config tall_chart ''Bytes Transmitted'' 1" by code_simp+
  have c: "tall_chart ! 1 = ''   Network Throughput: Sender Bytes Over Time''" by code_simp
  from protected_rows_kept [OF a, of "''*''" "''A''" default_config "''Bytes Transmitted''"
      "''Time (seconds)''"] a b
  show ?thesis unfolding c by blast
qed

text \<open>
  On the chart of eight rows the box is two rows high and the label of seventeen
  characters is centred on it: the title row is one of the rows the label is written
  on, and it comes out with a character of the label and a space in front.
\<close>

theorem protected_row_overlaid:
  "is_protected (sample_chart ! 1)
   \<and> sample_chart ! 1 = ''   Network Throughput: Sender Bytes Over Time''
   \<and> post_process_lines default_config sample_chart ''Bytes Transmitted'' ''Time (seconds)'' =
       Some [''_ '',
             ''T    Network Throughput: Sender Bytes Over Time'',
             ''r   1e 07 +'' @ replicate 50 CHR ''-'' @ ''+'',
             ''a         |'' @ replicate 50 CHR '' '' @ ''|'',
             ''n         |'' @ replicate 50 CHR '' '' @ ''|'',
             ''s       0 +'' @ replicate 50 CHR ''-'' @ ''+'',
             ''m         0        5       10'',
             ''i '']"
  by code_simp

section \<open>Border reconstruction\<close>

text \<open>
  Lines 428 to 430: the label a tick row gives, when the pattern matches. A rewritten
  row is the label behind its padding, a space, and the border.
\<close>

definition extracted_label :: "string \<Rightarrow> string option" where
  "extracted_label line = map_option (\<lambda>groups. py_strip (groups ! 1)) (re_match label_re line)"

lemma rewrite_tick_row_eq:
  assumes "0 \<le> y" and "y < int (length lines)"
  shows "rewrite_tick_row lines y tps bl =
     Some (case extracted_label (lines ! nat y) of
             None \<Rightarrow> lines
           | Some lab \<Rightarrow> lines[nat y := border_line lab tps bl])"
proof (cases "re_match label_re (lines ! nat y)")
  case None
  with assms show ?thesis
    by (simp add: rewrite_tick_row_def extracted_label_def py_get_in_range)
next
  case (Some groups)
  from re_match_length(1) [OF Some] have "length groups = 2" by (simp add: label_re_def)
  then have "py_get groups 1 = Some (groups ! 1)" by (simp add: py_get_in_range)
  with assms Some show ?thesis
    by (simp add: rewrite_tick_row_def extracted_label_def py_get_in_range py_set_in_range)
qed

lemma border_line_shape:
  "border_line lab (int C) (int L) =
     (replicate (C - 1 - length lab) CHR '' '' @ lab @ '' '') @ ''+'' @ replicate L CHR ''-'' @ ''+''"
proof (cases "int C - 1 - int (length lab) > 0")
  case True
  then have "nat (int C - 1 - int (length lab)) = C - 1 - length lab" by linarith
  with True show ?thesis by (simp add: border_line_def py_repeat_def Let_def)
next
  case False
  then have "C - 1 - length lab = 0" by linarith
  with False show ?thesis by (simp add: border_line_def py_repeat_def Let_def)
qed

lemma corner_column:
  "length (replicate (C - 1 - length lab) CHR '' '' @ lab @ '' '') = max C (length lab + 1)"
  by auto

text \<open>
  C1 (amended). The box is detected, the first row of its extent with a bar has its
  first bar at column \<open>C\<close> and its last at column \<open>C + L + 1\<close>, and the first and the
  last tick row are two rows. Then the border pass returns, and each of the two rows on
  which the label pattern matches becomes the padding, the label, a space, and a
  border of exactly \<open>L\<close> dashes between two plus signs; a row on which the pattern
  does not match is kept. The opening corner stands at column \<open>C\<close> when the label has
  at most \<open>C - 1\<close> characters, and one column behind the label's space when it is
  longer.
\<close>

theorem borders_rebuilt:
  assumes "0 \<le> gs" and "gs \<le> ge" and "ge < int (length lines)"
    and "find_typical_pipes lines (py_range gs (ge + 1)) = Some (int C, int C + int L + 1)"
    and "find_tick_rows lines (py_range 0 (int (length lines))) (- 1, - 1) = Some (f, l)"
    and "f \<noteq> - 1" and "f \<noteq> l" and "r = f \<or> r = l"
  shows "\<exists>out. reconstruct_borders gs ge lines = Some out
     \<and> (case extracted_label (lines ! nat r) of
           None \<Rightarrow> out ! nat r = lines ! nat r
         | Some lab \<Rightarrow>
             out ! nat r = (replicate (C - 1 - length lab) CHR '' '' @ lab @ '' '')
                             @ ''+'' @ replicate L CHR ''-'' @ ''+''
             \<and> length (replicate (C - 1 - length lab) CHR '' '' @ lab @ '' '') = max C (length lab + 1))"
proof -
  have idx: "\<forall>i \<in> set (py_range 0 (int (length lines))). 0 \<le> i \<and> i < int (length lines)"
    by (auto simp: py_range_set)
  from find_tick_rows_total [OF idx refl, of "- 1" "- 1"] assms(5,6)
  have f: "0 \<le> f" "f < int (length lines)" and l: "0 \<le> l" "l < int (length lines)" by auto
  define l1 where "l1 = (case extracted_label (lines ! nat f) of
      None \<Rightarrow> lines | Some lab \<Rightarrow> lines[nat f := border_line lab (int C) (int L)])"
  define out where "out = (case extracted_label (l1 ! nat l) of
      None \<Rightarrow> l1 | Some lab \<Rightarrow> l1[nat l := border_line lab (int C) (int L)])"
  have len1: "length l1 = length lines" by (simp add: l1_def split: option.splits)
  from assms(7) f l have ne: "nat f \<noteq> nat l" by simp
  then have keep: "l1 ! nat l = lines ! nat l" by (simp add: l1_def split: option.splits)
  have r1: "rewrite_tick_row lines f (int C) (int L) = Some l1"
    unfolding l1_def by (rule rewrite_tick_row_eq [OF f])
  have r2: "rewrite_tick_row l1 l (int C) (int L) = Some out"
    unfolding out_def using l len1 by (intro rewrite_tick_row_eq) simp_all
  have run: "reconstruct_borders gs ge lines = Some out"
    using assms(1,2,4,5,6) l(1) r1 r2 by (simp add: reconstruct_borders_def)
  have row_f: "out ! nat f = (case extracted_label (lines ! nat f) of
      None \<Rightarrow> lines ! nat f | Some lab \<Rightarrow> border_line lab (int C) (int L))"
    using ne f len1 by (simp add: out_def l1_def split: option.splits)
  have row_l: "out ! nat l = (case extracted_label (lines ! nat l) of
      None \<Rightarrow> lines ! nat l | Some lab \<Rightarrow> border_line lab (int C) (int L))"
    using l len1 keep by (simp add: out_def split: option.splits)
  from assms(8) row_f row_l
  have "out ! nat r = (case extracted_label (lines ! nat r) of
      None \<Rightarrow> lines ! nat r | Some lab \<Rightarrow> border_line lab (int C) (int L))" by auto
  with run show ?thesis
    by (auto simp: border_line_shape split: option.splits)
qed

text \<open>The chart of eight rows with a curve that reaches the top border.\<close>

definition dotted_chart :: "string list" where
  "dotted_chart =
     ['''',
      ''   Network Throughput: Sender Bytes Over Time'',
      ''  1e+07 +-----*'' @ replicate 44 CHR ''-'' @ ''+'',
      ''        |    * '' @ replicate 44 CHR '' '' @ ''|'',
      ''        |****  '' @ replicate 44 CHR '' '' @ ''|'',
      ''      0 +'' @ replicate 50 CHR ''-'' @ ''+'',
      ''        0        5       10'',
      '''']"

theorem borders_rebuilt_witness:
  "find_typical_pipes (glyph_pass ''*'' ''A'' sample_chart) (py_range 3 (4 + 1)) = Some (int 8, int 8 + int 50 + 1)
   \<and> find_tick_rows (glyph_pass ''*'' ''A'' sample_chart)
        (py_range 0 (int (length (glyph_pass ''*'' ''A'' sample_chart)))) (- 1, - 1) = Some (2, 5)
   \<and> extracted_label (glyph_pass ''*'' ''A'' sample_chart ! 2) = Some ''1e 07''
   \<and> (\<exists>out. reconstruct_borders 3 4 (glyph_pass ''*'' ''A'' sample_chart) = Some out
          \<and> out ! 2 = ''  1e 07 +'' @ replicate 50 CHR ''-'' @ ''+'')"
proof -
  let ?rows = "glyph_pass ''*'' ''A'' sample_chart"
  have "find_typical_pipes ?rows (py_range 3 (4 + 1)) = Some (8, 59)" by code_simp
  then have pipes: "find_typical_pipes ?rows (py_range 3 (4 + 1)) = Some (int 8, int 8 + int 50 + 1)"
    by simp
  have ticks: "find_tick_rows ?rows (py_range 0 (int (length ?rows))) (- 1, - 1) = Some (2, 5)"
    by code_simp
  have len: "(4 :: int) < int (length ?rows)" by code_simp
  have lab: "extracted_label (?rows ! 2) = Some ''1e 07''" by code_simp
  from borders_rebuilt [OF _ _ len pipes ticks, of 2] lab
  obtain out where "reconstruct_borders 3 4 ?rows = Some out"
    and "out ! 2 = (replicate (8 - 1 - length ''1e 07'') CHR '' '' @ ''1e 07'' @ '' '')
                             @ ''+'' @ replicate 50 CHR ''-'' @ ''+''"
    by auto
  moreover have "(replicate (8 - 1 - length ''1e 07'') CHR '' '' @ ''1e 07'' @ '' '') = ''  1e 07 ''"
    by (simp add: numeral_eq_Suc)
  ultimately show ?thesis using pipes ticks lab by auto
qed

text \<open>
  A data point on the top border, drawn with a dot as primary glyph: the label pattern
  takes the dot with the label, the label is longer than the margin, and the opening
  corner is written at column 14, while the box's bars stand at columns 8 and 59.
\<close>

theorem corner_after_long_label:
  "find_graph_area 0 dotted_chart (- 1, - 1) = (3, 4)
   \<and> find_typical_pipes (glyph_pass ''.'' ''A'' dotted_chart) (py_range 3 (4 + 1)) = Some (8, 59)
   \<and> find_tick_rows (glyph_pass ''.'' ''A'' dotted_chart) (py_range 0 8) (- 1, - 1) = Some (2, 5)
   \<and> extracted_label (glyph_pass ''.'' ''A'' dotted_chart ! 2) = Some ''1e 07       .''
   \<and> reconstruct_borders 3 4 (glyph_pass ''.'' ''A'' dotted_chart) =
       Some ['''',
             ''   Network Throughput: Sender Bytes Over Time'',
             ''1e 07       . +'' @ replicate 50 CHR ''-'' @ ''+'',
             ''        |    . '' @ replicate 44 CHR '' '' @ ''|'',
             ''        |....  '' @ replicate 44 CHR '' '' @ ''|'',
             ''      0 +'' @ replicate 50 CHR ''-'' @ ''+'',
             ''        0        5       10'',
             '''']
   \<and> py_find CHR ''+'' (''1e 07       . +'' @ replicate 50 CHR ''-'' @ ''+'') = 14"
  by code_simp

end
